theory Spec2Isabelle
  imports Main "HOL-Library.Signed_Division"
begin

section \<open>The digital scene of digital.cpp: eyes and ripples\<close>

text \<open>
  A shallow embedding of the eye and ripple subsystems of
  \<^verbatim>\<open>analog_digital_arduinosketch/analog_digital/digital.cpp\<close>.

  \<^item> The C++ \<^verbatim>\<open>int\<close> fields are modelled as HOL integers. Every quantity of a running
    sketch is bounded by the display dimensions (16-bit values in the graphics library) or
    by a small random bound (at most 180), so no 32-bit operation of the modelled code
    leaves the range of \<^verbatim>\<open>int\<close>; C++ division \<^verbatim>\<open>/\<close> truncates towards zero and is
    written \<open>sdiv\<close>.
  \<^item> The global arrays \<^verbatim>\<open>eyes[MAX_EYES]\<close> and \<^verbatim>\<open>ripples[MAX_RIPPLES]\<close> are lists, updated
    by index; a function that takes \<^verbatim>\<open>Eye &eye\<close> returns the updated eye.
  \<^item> \<^verbatim>\<open>random()\<close> belongs to the Arduino core, not to this repository. The model takes the
    generator's raw output as a parameter of the state: \<open>raw w k\<close> is the k-th raw number,
    \<open>used w\<close> counts the numbers drawn so far. Theorems hold for every raw sequence.
  \<^item> Drawing calls on the matrix change only the frame buffer, which no modelled
    function reads; they are left out.
\<close>

subsection \<open>Constants and data\<close>

definition MAX_EYES :: nat where "MAX_EYES = 8"
definition EYE_HALF_HEIGHT :: int where "EYE_HALF_HEIGHT = 25"
definition EYE_MIN_SPACING :: int where "EYE_MIN_SPACING = 55"
definition EYE_OPEN_SPEED :: int where "EYE_OPEN_SPEED = 2"
definition MAX_RIPPLES :: nat where "MAX_RIPPLES = 12"

datatype EyeState =
  EYE_INACTIVE | EYE_OPENING | EYE_OPEN | EYE_BLINKING_CLOSE | EYE_BLINKING_OPEN | EYE_CLOSING

text \<open>\<^verbatim>\<open>struct Eye\<close>; the fields \<^verbatim>\<open>x\<close> and \<^verbatim>\<open>y\<close> are named \<open>eye_x\<close> and \<open>eye_y\<close>.\<close>

record Eye =
  eye_x :: int
  eye_y :: int
  state :: EyeState
  openAmount :: int
  maxOpen :: int
  halfHeight :: int
  timer :: int
  blinksLeft :: int
  irisX :: int
  irisY :: int
  irisTargetX :: int
  irisTargetY :: int
  lookTimer :: int

record Ripple =
  cx :: int
  cy :: int
  radius :: int
  speed :: int
  active :: bool

text \<open>What the code reads of \<^verbatim>\<open>Adafruit_Protomatter &matrix\<close>: its dimensions.\<close>

record Matrix =
  width :: int
  height :: int

record world =
  eyes :: "Eye list"
  ripples :: "Ripple list"
  raw :: "nat \<Rightarrow> int"
  used :: nat

subsection \<open>The random number generator of the Arduino core\<close>

text \<open>
  \<^verbatim>\<open>random(howsmall, howbig)\<close> returns \<^verbatim>\<open>howsmall\<close> when the range is empty and otherwise
  a number in \<open>[howsmall, howbig)\<close>; \<^verbatim>\<open>random(howbig)\<close> returns 0 for \<^verbatim>\<open>howbig == 0\<close> and
  otherwise a number in \<open>[0, howbig)\<close>. The raw number is reduced into the range.
\<close>

definition random_range :: "int \<Rightarrow> int \<Rightarrow> int \<Rightarrow> int" where
  "random_range howsmall howbig r =
     (if howsmall \<ge> howbig then howsmall else r mod (howbig - howsmall) + howsmall)"

text \<open>The call in a state: an empty range returns at once and draws no raw number.\<close>

definition random2 :: "int \<Rightarrow> int \<Rightarrow> world \<Rightarrow> int \<times> world" where
  "random2 howsmall howbig w =
     (random_range howsmall howbig (raw w (used w)),
      if howsmall \<ge> howbig then w else w\<lparr>used := Suc (used w)\<rparr>)"

definition random1 :: "int \<Rightarrow> world \<Rightarrow> int \<times> world" where
  "random1 howbig w =
     (if howbig = 0 then (0, w)
      else (raw w (used w) mod howbig, w\<lparr>used := Suc (used w)\<rparr>))"

subsection \<open>Ripples\<close>

text \<open>The inner loop of \<^verbatim>\<open>spawnRipples\<close>: the first slot from index \<open>i\<close> on that is not active.\<close>

fun free_ripple :: "Ripple list \<Rightarrow> nat \<Rightarrow> nat \<Rightarrow> nat option" where
  "free_ripple rs i 0 = None"
| "free_ripple rs i (Suc n) =
     (if \<not> active (rs ! i) then Some i else free_ripple rs (Suc i) n)"

text \<open>The ripple written into a claimed slot.\<close>

definition new_ripple :: "Eye \<Rightarrow> int \<Rightarrow> Ripple" where
  "new_ripple eye sp =
     \<lparr>cx = eye_x eye, cy = eye_y eye, radius = halfHeight eye, speed = sp, active = True\<rparr>"

text \<open>One pass of the outer loop body: claim the first free slot, if any.\<close>

definition spawnRipple :: "Eye \<Rightarrow> world \<Rightarrow> world" where
  "spawnRipple eye w =
     (case free_ripple (ripples w) 0 MAX_RIPPLES of
        None \<Rightarrow> w
      | Some i \<Rightarrow>
          (let (sp, w') = random2 1 4 w in
           w'\<lparr>ripples := (ripples w')[i := new_ripple eye sp]\<rparr>))"

fun spawnRipples_loop :: "nat \<Rightarrow> Eye \<Rightarrow> world \<Rightarrow> world" where
  "spawnRipples_loop 0 eye w = w"
| "spawnRipples_loop (Suc c) eye w = spawnRipples_loop c eye (spawnRipple eye w)"

definition spawnRipples :: "Eye \<Rightarrow> world \<Rightarrow> world" where
  "spawnRipples eye w =
     (let (count, w') = random2 1 4 w in spawnRipples_loop (nat count) eye w')"

definition updateRipple :: "int \<Rightarrow> Ripple \<Rightarrow> Ripple" where
  "updateRipple maxDim r =
     (if active r then
        (let r' = r\<lparr>radius := radius r + speed r\<rparr> in
         if radius r' > maxDim then r'\<lparr>active := False\<rparr> else r')
      else r)"

definition updateRipples :: "Matrix \<Rightarrow> world \<Rightarrow> world" where
  "updateRipples matrix w =
     (let maxDim = max (width matrix) (height matrix) in
      fold (\<lambda>i w. w\<lparr>ripples := (ripples w)[i := updateRipple maxDim (ripples w ! i)]\<rparr>)
        [0..<MAX_RIPPLES] w)"

subsection \<open>Eyes\<close>

definition updateIris :: "Eye \<Rightarrow> world \<Rightarrow> Eye \<times> world" where
  "updateIris eye w =
     (if openAmount eye \<le> 3 then (eye, w)
      else
        (let eye1 = eye\<lparr>lookTimer := lookTimer eye - 1\<rparr>;
             (eye2, w2) =
               (if lookTimer eye1 \<le> 0 then
                  (let maxH = openAmount eye1 sdiv 3;
                       maxV = halfHeight eye1 sdiv 5;
                       (tx, wa) = random2 (- maxH) (maxH + 1) w;
                       (ty, wb) = random2 (- maxV) (maxV + 1) wa;
                       (lt, wc) = random2 30 120 wb
                   in (eye1\<lparr>irisTargetX := tx, irisTargetY := ty, lookTimer := lt\<rparr>, wc))
                else (eye1, w));
             eye3 =
               (if irisX eye2 < irisTargetX eye2 then eye2\<lparr>irisX := irisX eye2 + 1\<rparr>
                else if irisX eye2 > irisTargetX eye2 then eye2\<lparr>irisX := irisX eye2 - 1\<rparr>
                else eye2);
             eye4 =
               (if irisY eye3 < irisTargetY eye3 then eye3\<lparr>irisY := irisY eye3 + 1\<rparr>
                else if irisY eye3 > irisTargetY eye3 then eye3\<lparr>irisY := irisY eye3 - 1\<rparr>
                else eye3)
         in (eye4, w2)))"

definition updateEye :: "Eye \<Rightarrow> world \<Rightarrow> Eye \<times> world" where
  "updateEye eye w =
     (case state eye of
        EYE_OPENING \<Rightarrow>
          (let eye1 = eye\<lparr>openAmount := openAmount eye + EYE_OPEN_SPEED\<rparr>;
               (eye2, w2) =
                 (if openAmount eye1 \<ge> maxOpen eye1 then
                    (let (t, w') = random2 60 180 w in
                     (eye1\<lparr>openAmount := maxOpen eye1, state := EYE_OPEN, timer := t\<rparr>, w'))
                  else (eye1, w))
           in updateIris eye2 w2)
      | EYE_OPEN \<Rightarrow>
          (let eye1 = eye\<lparr>timer := timer eye - 1\<rparr>;
               (eye2, w2) =
                 (if timer eye1 \<le> 0 then
                    (if blinksLeft eye1 > 0 then
                       (let eye' = eye1\<lparr>state := EYE_BLINKING_CLOSE,
                                         blinksLeft := blinksLeft eye1 - 1\<rparr>
                        in (eye', spawnRipples eye' w))
                     else (eye1\<lparr>state := EYE_CLOSING\<rparr>, w))
                  else (eye1, w))
           in updateIris eye2 w2)
      | EYE_BLINKING_CLOSE \<Rightarrow>
          (let eye1 = eye\<lparr>openAmount := openAmount eye - EYE_OPEN_SPEED\<rparr> in
           if openAmount eye1 \<le> 0
           then (eye1\<lparr>openAmount := 0, state := EYE_BLINKING_OPEN\<rparr>, w)
           else (eye1, w))
      | EYE_BLINKING_OPEN \<Rightarrow>
          (let eye1 = eye\<lparr>openAmount := openAmount eye + EYE_OPEN_SPEED\<rparr>;
               (eye2, w2) =
                 (if openAmount eye1 \<ge> maxOpen eye1 then
                    (let (t, w') = random2 60 180 w in
                     (eye1\<lparr>openAmount := maxOpen eye1, state := EYE_OPEN, timer := t\<rparr>, w'))
                  else (eye1, w))
           in updateIris eye2 w2)
      | EYE_CLOSING \<Rightarrow>
          (let eye1 = eye\<lparr>openAmount := openAmount eye - EYE_OPEN_SPEED\<rparr> in
           if openAmount eye1 \<le> 0
           then (eye1\<lparr>openAmount := 0, state := EYE_INACTIVE\<rparr>, w)
           else (eye1, w))
      | EYE_INACTIVE \<Rightarrow> (eye, w))"

text \<open>The spacing test of one sampled position against every other active eye.\<close>

definition spacing_ok :: "nat \<Rightarrow> int \<Rightarrow> Eye list \<Rightarrow> bool" where
  "spacing_ok i newY es =
     list_all (\<lambda>j. \<not> (j \<noteq> i \<and> state (es ! j) \<noteq> EYE_INACTIVE
                      \<and> \<bar>newY - eye_y (es ! j)\<bar> < EYE_MIN_SPACING))
       [0..<MAX_EYES]"

text \<open>
  The rejection-sampling loop with \<open>n\<close> attempts left: the accepted position and the
  state after the draws, or \<open>None\<close> when \<^verbatim>\<open>valid\<close> is false at the end.
\<close>

fun sample_y :: "nat \<Rightarrow> Matrix \<Rightarrow> nat \<Rightarrow> world \<Rightarrow> int option \<times> world" where
  "sample_y 0 matrix i w = (None, w)"
| "sample_y (Suc n) matrix i w =
     (let (newY, w') = random2 (EYE_HALF_HEIGHT + 2) (height matrix - EYE_HALF_HEIGHT - 2) w in
      if spacing_ok i newY (eyes w') then (Some newY, w') else sample_y n matrix i w')"

text \<open>The first inactive slot from index \<open>i\<close> on: the outer loop of \<^verbatim>\<open>spawnEye\<close>.\<close>

fun free_eye :: "Eye list \<Rightarrow> nat \<Rightarrow> nat \<Rightarrow> nat option" where
  "free_eye es i 0 = None"
| "free_eye es i (Suc n) =
     (if state (es ! i) = EYE_INACTIVE then Some i else free_eye es (Suc i) n)"

text \<open>The record \<^verbatim>\<open>spawnEye\<close> writes into the slot it claims.\<close>

definition new_eye :: "Matrix \<Rightarrow> int \<Rightarrow> int \<Rightarrow> int \<Rightarrow> Eye" where
  "new_eye matrix newY b l =
     \<lparr>eye_x = width matrix sdiv 2, eye_y = newY, state = EYE_OPENING,
      openAmount = 0, maxOpen = width matrix sdiv 2 - 2,
      halfHeight = EYE_HALF_HEIGHT, timer = 0, blinksLeft = b,
      irisX = 0, irisY = 0, irisTargetX = 0, irisTargetY = 0, lookTimer = l\<rparr>"

definition spawnEye :: "Matrix \<Rightarrow> world \<Rightarrow> world" where
  "spawnEye matrix w =
     (case free_eye (eyes w) 0 MAX_EYES of
        None \<Rightarrow> w
      | Some i \<Rightarrow>
          (case sample_y 20 matrix i w of
             (None, w1) \<Rightarrow> w1
           | (Some newY, w1) \<Rightarrow>
               (let (b, w2) = random2 1 5 w1;
                    (l, w3) = random2 20 60 w2
                in w3\<lparr>eyes := (eyes w3)[i := new_eye matrix newY b l]\<rparr>)))"

subsection \<open>One frame\<close>

text \<open>The body of the first loop over the eyes, for slot \<open>i\<close>, with the counter.\<close>

definition update_slot :: "nat \<Rightarrow> world \<times> int \<Rightarrow> world \<times> int" where
  "update_slot i p =
     (let (w, activeEyes) = p in
      if state (eyes w ! i) \<noteq> EYE_INACTIVE then
        (let (eye', w') = updateEye (eyes w ! i) w in
         (w'\<lparr>eyes := (eyes w')[i := eye']\<rparr>, activeEyes + 1))
      else (w, activeEyes))"

definition update_eyes :: "world \<Rightarrow> world \<times> int" where
  "update_eyes w = fold update_slot [0..<MAX_EYES] (w, 0)"

function ensure_two :: "Matrix \<Rightarrow> world \<Rightarrow> int \<Rightarrow> world \<times> int" where
  "ensure_two matrix w activeEyes =
     (if activeEyes < 2 then ensure_two matrix (spawnEye matrix w) (activeEyes + 1)
      else (w, activeEyes))"
  by pat_completeness auto
termination
  by (relation "measure (\<lambda>(matrix, w, a). nat (2 - a))") auto

declare ensure_two.simps [simp del]

text \<open>The probabilistic extra spawn; \<^verbatim>\<open>random(90)\<close> is drawn only when the counter is below 5.\<close>

definition maybe_spawn :: "Matrix \<Rightarrow> world \<Rightarrow> int \<Rightarrow> world" where
  "maybe_spawn matrix w activeEyes =
     (if activeEyes < 5 then
        (let (r, w') = random1 90 w in if r = 0 then spawnEye matrix w' else w')
      else w)"

text \<open>
  The eye section of \<^verbatim>\<open>drawDigital\<close> up to and including the replenishment step, and the
  whole frame. The background drift and the digit column before it touch neither pool;
  they draw random numbers, which is why a frame may start at any point of any raw
  sequence.
\<close>

definition eyes_phase :: "Matrix \<Rightarrow> world \<Rightarrow> world" where
  "eyes_phase matrix w =
     (let (w1, a1) = update_eyes w;
          (w2, a2) = ensure_two matrix w1 a1
      in maybe_spawn matrix w2 a2)"

definition drawDigital :: "Matrix \<Rightarrow> world \<Rightarrow> world" where
  "drawDigital matrix w = updateRipples matrix (eyes_phase matrix w)"

text \<open>The zero-initialised static arrays.\<close>

definition eye0 :: Eye where
  "eye0 = \<lparr>eye_x = 0, eye_y = 0, state = EYE_INACTIVE, openAmount = 0, maxOpen = 0,
           halfHeight = 0, timer = 0, blinksLeft = 0, irisX = 0, irisY = 0,
           irisTargetX = 0, irisTargetY = 0, lookTimer = 0\<rparr>"

definition ripple0 :: Ripple where
  "ripple0 = \<lparr>cx = 0, cy = 0, radius = 0, speed = 0, active = False\<rparr>"

definition initial :: "(nat \<Rightarrow> int) \<Rightarrow> nat \<Rightarrow> world" where
  "initial rw k = \<lparr>eyes = replicate MAX_EYES eye0, ripples = replicate MAX_RIPPLES ripple0,
                   raw = rw, used = k\<rparr>"

text \<open>
  The states in which a frame can start: the initial one, and the state a frame leaves,
  with the generator advanced by whatever ran in between.
\<close>

inductive reachable :: "Matrix \<Rightarrow> world \<Rightarrow> bool" for matrix where
  start: "reachable matrix (initial rw k)"
| frame: "reachable matrix w \<Longrightarrow> reachable matrix ((drawDigital matrix w)\<lparr>raw := rw, used := k\<rparr>)"

definition num_active :: "Eye list \<Rightarrow> nat" where
  "num_active es = length (filter (\<lambda>e. state e \<noteq> EYE_INACTIVE) es)"

text \<open>
  The life of one eye: \<open>eye_run n eye env\<close> is the eye after \<open>n\<close> calls of
  \<^verbatim>\<open>updateEye\<close>, the k-th call (from 0) made in the global state \<open>env k\<close>. Between two
  calls nothing else writes an active eye, while the ripple pool and the generator change;
  so the states of the calls are arbitrary.
\<close>

fun eye_run :: "nat \<Rightarrow> Eye \<Rightarrow> (nat \<Rightarrow> world) \<Rightarrow> Eye" where
  "eye_run 0 eye env = eye"
| "eye_run (Suc n) eye env = fst (updateEye (eye_run n eye env) (env n))"

text \<open>The 64 by 576 display used in the examples, and a generator that returns 0 forever.\<close>

definition panel :: Matrix where
  "panel = \<lparr>width = 64, height = 576\<rparr>"

definition zeros :: "nat \<Rightarrow> int" where
  "zeros k = 0"

subsection \<open>The vocabulary of the properties\<close>

text \<open>
  The states an eye shows over its calls 0 to \<open>n\<close>, and the paths the state diagram allows
  once runs of equal states are merged: \<^verbatim>\<open>OPENING, OPEN\<close>, then any number of
  \<^verbatim>\<open>BLINKING_CLOSE, BLINKING_OPEN, OPEN\<close>, then \<^verbatim>\<open>CLOSING, INACTIVE\<close>.
\<close>

definition eye_trace :: "nat \<Rightarrow> Eye \<Rightarrow> (nat \<Rightarrow> world) \<Rightarrow> EyeState list" where
  "eye_trace n eye env = map (\<lambda>k. state (eye_run k eye env)) [0..<Suc n]"

fun blink_tail :: "EyeState list \<Rightarrow> bool" where
  "blink_tail [EYE_CLOSING, EYE_INACTIVE] = True"
| "blink_tail (EYE_BLINKING_CLOSE # EYE_BLINKING_OPEN # EYE_OPEN # rest) = blink_tail rest"
| "blink_tail _ = False"

definition lifecycle_path :: "EyeState list \<Rightarrow> bool" where
  "lifecycle_path ps =
     (case ps of EYE_OPENING # EYE_OPEN # rest \<Rightarrow> blink_tail rest | _ \<Rightarrow> False)"

text \<open>The same for an eye that is already on its way: what may still follow from a state.\<close>

fun rest_of_life :: "EyeState \<Rightarrow> EyeState list \<Rightarrow> bool" where
  "rest_of_life EYE_OPENING ps = lifecycle_path ps"
| "rest_of_life EYE_OPEN ps = (case ps of EYE_OPEN # rest \<Rightarrow> blink_tail rest | _ \<Rightarrow> False)"
| "rest_of_life EYE_BLINKING_CLOSE ps = blink_tail ps"
| "rest_of_life EYE_BLINKING_OPEN ps =
     (case ps of EYE_BLINKING_OPEN # EYE_OPEN # rest \<Rightarrow> blink_tail rest | _ \<Rightarrow> False)"
| "rest_of_life EYE_CLOSING ps = (ps = [EYE_CLOSING, EYE_INACTIVE])"
| "rest_of_life EYE_INACTIVE ps = (ps = [EYE_INACTIVE])"

text \<open>
  A lexicographic measure of the rest of a life: blinks left, then the position of the
  state in a blink cycle, then the ticks left in the state.
\<close>

fun rank :: "EyeState \<Rightarrow> nat" where
  "rank EYE_INACTIVE = 0"
| "rank EYE_CLOSING = 1"
| "rank EYE_OPEN = 2"
| "rank EYE_BLINKING_OPEN = 3"
| "rank EYE_BLINKING_CLOSE = 4"
| "rank EYE_OPENING = 5"

fun countdown :: "Eye \<Rightarrow> nat" where
  "countdown e =
     (case state e of
        EYE_INACTIVE \<Rightarrow> 0
      | EYE_OPENING \<Rightarrow> nat (maxOpen e - openAmount e)
      | EYE_OPEN \<Rightarrow> nat (timer e)
      | EYE_BLINKING_CLOSE \<Rightarrow> nat (openAmount e)
      | EYE_BLINKING_OPEN \<Rightarrow> nat (maxOpen e - openAmount e)
      | EYE_CLOSING \<Rightarrow> nat (openAmount e))"

definition eye_measure :: "Eye \<Rightarrow> nat \<times> nat \<times> nat" where
  "eye_measure e = (nat (blinksLeft e), rank (state e), countdown e)"

text \<open>
  One spawn attempt of \<^verbatim>\<open>spawnRipples\<close> as a relation between the pool before and after:
  a full pool stays as it is; otherwise the first inactive slot becomes a ripple at the
  eye's centre with the eye's half height as radius and a speed of 1, 2 or 3.
\<close>

definition spawn_attempt :: "Eye \<Rightarrow> Ripple list \<Rightarrow> Ripple list \<Rightarrow> bool" where
  "spawn_attempt e rs rs' =
     (if list_all active rs then rs' = rs
      else \<exists>i<length rs. \<exists>sp\<in>{1, 2, 3}.
             \<not> active (rs ! i) \<and> (\<forall>j<i. active (rs ! j)) \<and>
             rs' = rs[i := \<lparr>cx = eye_x e, cy = eye_y e, radius = halfHeight e,
                            speed = sp, active = True\<rparr>])"

text \<open>Invariants of the pools.\<close>

definition spaced :: "Eye list \<Rightarrow> bool" where
  "spaced es =
     (\<forall>i<length es. \<forall>j<length es.
        i \<noteq> j \<and> state (es ! i) \<noteq> EYE_INACTIVE \<and> state (es ! j) \<noteq> EYE_INACTIVE \<longrightarrow>
        EYE_MIN_SPACING \<le> \<bar>eye_y (es ! i) - eye_y (es ! j)\<bar>)"

definition open_bounded :: "Eye \<Rightarrow> bool" where
  "open_bounded e = (state e \<noteq> EYE_INACTIVE \<longrightarrow> 0 \<le> openAmount e \<and> openAmount e \<le> maxOpen e)"

definition ripple_ok :: "Ripple \<Rightarrow> bool" where
  "ripple_ok r = (active r \<longrightarrow> 1 \<le> speed r \<and> speed r \<le> 3)"

definition world_ok :: "world \<Rightarrow> bool" where
  "world_ok w =
     (length (eyes w) = MAX_EYES \<and> length (ripples w) = MAX_RIPPLES \<and> spaced (eyes w) \<and>
      list_all ripple_ok (ripples w) \<and> list_all (\<lambda>e. 0 \<le> blinksLeft e) (eyes w))"

text \<open>A call of \<^verbatim>\<open>spawnEye\<close> in state \<open>w\<close> placed an eye: one more slot is active after it.\<close>

definition placed :: "Matrix \<Rightarrow> world \<Rightarrow> bool" where
  "placed m w = (num_active (eyes (spawnEye m w)) = Suc (num_active (eyes w)))"

text \<open>The global state after the body of the first loop ran for slot \<open>i\<close> on an active eye.\<close>

definition slot_updated :: "nat \<Rightarrow> world \<Rightarrow> world" where
  "slot_updated i w =
     (snd (updateEye (eyes w ! i) w))\<lparr>eyes := (eyes w)[i := fst (updateEye (eyes w ! i) w)]\<rparr>"

text \<open>
  An example run on the installed display (576 by 32 physical pixels, rotated, so 32 wide
  and 576 high): the first frame draws the raw numbers 0, 100, 200, ..., every later frame
  draws 1 each time.
\<close>

definition installed :: Matrix where
  "installed = \<lparr>width = 32, height = 576\<rparr>"

text \<open>A display too short for two eyes: its safe range of 46 rows is below the spacing.\<close>

definition short_panel :: Matrix where
  "short_panel = \<lparr>width = 32, height = 100\<rparr>"

definition steps :: "nat \<Rightarrow> int" where
  "steps k = 100 * int k"

definition ones :: "nat \<Rightarrow> int" where
  "ones k = 1"

fun frames :: "nat \<Rightarrow> world" where
  "frames 0 = initial steps 0"
| "frames (Suc n) = (drawDigital installed (frames n))\<lparr>raw := ones, used := 0\<rparr>"

section \<open>What one call changes\<close>

lemma random2_fst: "fst (random2 lo hi w) = random_range lo hi (raw w (used w))"
  by (simp add: random2_def)

lemma random2_world:
  "eyes (snd (random2 lo hi w)) = eyes w"
  "ripples (snd (random2 lo hi w)) = ripples w"
  "raw (snd (random2 lo hi w)) = raw w"
  by (simp_all add: random2_def)

lemma updateIris_eye:
  "eye_x (fst (updateIris e w)) = eye_x e"
  "eye_y (fst (updateIris e w)) = eye_y e"
  "state (fst (updateIris e w)) = state e"
  "openAmount (fst (updateIris e w)) = openAmount e"
  "maxOpen (fst (updateIris e w)) = maxOpen e"
  "halfHeight (fst (updateIris e w)) = halfHeight e"
  "timer (fst (updateIris e w)) = timer e"
  "blinksLeft (fst (updateIris e w)) = blinksLeft e"
  by (simp_all add: updateIris_def Let_def split_def)

lemma updateIris_world:
  "eyes (snd (updateIris e w)) = eyes w"
  "ripples (snd (updateIris e w)) = ripples w"
  "raw (snd (updateIris e w)) = raw w"
  by (simp_all add: updateIris_def Let_def split_def random2_def)

lemma updateEye_state:
  "state (fst (updateEye e w)) =
     (case state e of
        EYE_INACTIVE \<Rightarrow> EYE_INACTIVE
      | EYE_OPENING \<Rightarrow> if openAmount e + 2 \<ge> maxOpen e then EYE_OPEN else EYE_OPENING
      | EYE_OPEN \<Rightarrow> if timer e - 1 \<le> 0 then (if blinksLeft e > 0 then EYE_BLINKING_CLOSE else EYE_CLOSING) else EYE_OPEN
      | EYE_BLINKING_CLOSE \<Rightarrow> if openAmount e - 2 \<le> 0 then EYE_BLINKING_OPEN else EYE_BLINKING_CLOSE
      | EYE_BLINKING_OPEN \<Rightarrow> if openAmount e + 2 \<ge> maxOpen e then EYE_OPEN else EYE_BLINKING_OPEN
      | EYE_CLOSING \<Rightarrow> if openAmount e - 2 \<le> 0 then EYE_INACTIVE else EYE_CLOSING)"
  by (simp add: updateEye_def updateIris_eye Let_def split_def EYE_OPEN_SPEED_def
      split: EyeState.splits)

lemma updateEye_openAmount:
  "openAmount (fst (updateEye e w)) =
     (case state e of
        EYE_INACTIVE \<Rightarrow> openAmount e
      | EYE_OPENING \<Rightarrow> min (openAmount e + 2) (maxOpen e)
      | EYE_OPEN \<Rightarrow> openAmount e
      | EYE_BLINKING_CLOSE \<Rightarrow> max 0 (openAmount e - 2)
      | EYE_BLINKING_OPEN \<Rightarrow> min (openAmount e + 2) (maxOpen e)
      | EYE_CLOSING \<Rightarrow> max 0 (openAmount e - 2))"
  by (simp add: updateEye_def updateIris_eye Let_def split_def EYE_OPEN_SPEED_def
      split: EyeState.splits)

lemma updateEye_blinksLeft:
  "blinksLeft (fst (updateEye e w)) =
     (if state e = EYE_OPEN \<and> timer e - 1 \<le> 0 \<and> blinksLeft e > 0 then blinksLeft e - 1
      else blinksLeft e)"
  by (simp add: updateEye_def updateIris_eye Let_def split_def EYE_OPEN_SPEED_def
      split: EyeState.splits)

lemma updateEye_timer_open:
  "state e = EYE_OPEN \<Longrightarrow> timer (fst (updateEye e w)) = timer e - 1"
  by (simp add: updateEye_def updateIris_eye Let_def split_def)

lemma updateEye_fixed:
  "eye_x (fst (updateEye e w)) = eye_x e"
  "eye_y (fst (updateEye e w)) = eye_y e"
  "maxOpen (fst (updateEye e w)) = maxOpen e"
  "halfHeight (fst (updateEye e w)) = halfHeight e"
  by (simp_all add: updateEye_def updateIris_eye Let_def split_def EYE_OPEN_SPEED_def
      split: EyeState.splits)

section \<open>The iris while the eye closes\<close>

text \<open>
  C10. In the states \<^verbatim>\<open>EYE_BLINKING_CLOSE\<close> and \<^verbatim>\<open>EYE_CLOSING\<close> a call of \<^verbatim>\<open>updateEye\<close>
  leaves the five iris fields of the eye as they were, and draws no random number nor
  touches a pool; and \<^verbatim>\<open>updateIris\<close> changes nothing when \<open>openAmount \<le> 3\<close>.
\<close>

theorem iris_frozen_while_closing:
  "(state eye = EYE_BLINKING_CLOSE \<or> state eye = EYE_CLOSING \<longrightarrow>
      irisX (fst (updateEye eye w)) = irisX eye \<and>
      irisY (fst (updateEye eye w)) = irisY eye \<and>
      irisTargetX (fst (updateEye eye w)) = irisTargetX eye \<and>
      irisTargetY (fst (updateEye eye w)) = irisTargetY eye \<and>
      lookTimer (fst (updateEye eye w)) = lookTimer eye \<and>
      snd (updateEye eye w) = w) \<and>
   (openAmount eye \<le> 3 \<longrightarrow> updateIris eye w = (eye, w))"
  by (auto simp: updateEye_def updateIris_def Let_def)

theorem iris_frozen_while_closing_witness:
  "state ((new_eye panel 100 2 30)\<lparr>state := EYE_CLOSING, openAmount := 3, irisX := 4\<rparr>) = EYE_CLOSING \<and>
   irisX (fst (updateEye ((new_eye panel 100 2 30)\<lparr>state := EYE_CLOSING, openAmount := 3, irisX := 4\<rparr>)
                  (initial zeros 0))) = 4 \<and>
   lookTimer (fst (updateEye ((new_eye panel 100 2 30)\<lparr>state := EYE_CLOSING, openAmount := 3, irisX := 4\<rparr>)
                  (initial zeros 0))) = 30 \<and>
   updateIris ((new_eye panel 100 2 30)\<lparr>state := EYE_CLOSING, openAmount := 3, irisX := 4\<rparr>)
       (initial zeros 0)
     = ((new_eye panel 100 2 30)\<lparr>state := EYE_CLOSING, openAmount := 3, irisX := 4\<rparr>, initial zeros 0)"
  using iris_frozen_while_closing
    [of "(new_eye panel 100 2 30)\<lparr>state := EYE_CLOSING, openAmount := 3, irisX := 4\<rparr>"
        "initial zeros 0"]
  by (simp add: new_eye_def)

section \<open>Opening a fresh eye\<close>

lemma opening_progress:
  assumes "state e = EYE_OPENING" "openAmount e = 0" "maxOpen e = 30"
  shows "k \<le> 14 \<Longrightarrow> state (eye_run k e env) = EYE_OPENING \<and>
           openAmount (eye_run k e env) = 2 * int k \<and> maxOpen (eye_run k e env) = 30"
proof (induction k)
  case 0
  then show ?case using assms by simp
next
  case (Suc k)
  then show ?case by (simp add: updateEye_state updateEye_openAmount updateEye_fixed)
qed

text \<open>
  C9. An eye as \<^verbatim>\<open>spawnEye\<close> leaves it (state \<^verbatim>\<open>EYE_OPENING\<close>, \<open>openAmount = 0\<close>) with
  \<open>maxOpen = 30\<close> and \<open>halfHeight = 25\<close> is, after fewer than 15 calls of \<^verbatim>\<open>updateEye\<close>, still
  opening with \<open>openAmount < 30\<close>, and after exactly 15 calls open with \<open>openAmount = 30\<close>,
  whatever the global state of each call.
\<close>

theorem opening_takes_15_ticks:
  assumes "state e = EYE_OPENING" "openAmount e = 0" "maxOpen e = 30" "halfHeight e = 25"
  shows "(\<forall>k<15. state (eye_run k e env) = EYE_OPENING \<and> openAmount (eye_run k e env) < 30) \<and>
         state (eye_run 15 e env) = EYE_OPEN \<and> openAmount (eye_run 15 e env) = 30"
proof -
  have a: "state (eye_run k e env) = EYE_OPENING \<and> openAmount (eye_run k e env) < 30"
    if "k < 15" for k
    using opening_progress [OF assms(1-3), of k env] that by simp
  have "eye_run 15 e env = fst (updateEye (eye_run 14 e env) (env 14))"
    using eye_run.simps(2) [of 14 e env] by simp
  moreover have "state (eye_run 14 e env) = EYE_OPENING \<and>
           openAmount (eye_run 14 e env) = 28 \<and> maxOpen (eye_run 14 e env) = 30"
    using opening_progress [OF assms(1-3), of 14 env] by simp
  ultimately have "state (eye_run 15 e env) = EYE_OPEN \<and> openAmount (eye_run 15 e env) = 30"
    by (simp add: updateEye_state updateEye_openAmount updateEye_fixed)
  with a show ?thesis by blast
qed

theorem opening_takes_15_ticks_witness:
  "maxOpen (new_eye panel 100 2 30) = 30 \<and> halfHeight (new_eye panel 100 2 30) = 25 \<and>
   state (eye_run 14 (new_eye panel 100 2 30) (\<lambda>k. initial zeros k)) = EYE_OPENING \<and>
   openAmount (eye_run 14 (new_eye panel 100 2 30) (\<lambda>k. initial zeros k)) < 30 \<and>
   state (eye_run 15 (new_eye panel 100 2 30) (\<lambda>k. initial zeros k)) = EYE_OPEN \<and>
   openAmount (eye_run 15 (new_eye panel 100 2 30) (\<lambda>k. initial zeros k)) = 30"
  using opening_takes_15_ticks [of "new_eye panel 100 2 30" "\<lambda>k. initial zeros k"]
  by (simp add: new_eye_def panel_def EYE_HALF_HEIGHT_def)

section \<open>The life of an eye\<close>

text \<open>Every call on an active eye decreases the measure, so every life ends.\<close>

lemma updateEye_decreases:
  assumes "state e \<noteq> EYE_INACTIVE"
  shows "(eye_measure (fst (updateEye e w)), eye_measure e)
           \<in> less_than <*lex*> less_than <*lex*> less_than"
  using assms
  by (cases "state e")
     (auto simp: eye_measure_def updateEye_state updateEye_openAmount updateEye_blinksLeft
        updateEye_timer_open updateEye_fixed)

lemma eye_run_shift:
  "eye_run (Suc n) e env = eye_run n (fst (updateEye e (env 0))) (\<lambda>k. env (Suc k))"
  by (induction n) simp_all

lemma eye_trace_shift:
  "eye_trace (Suc n) e env = state e # eye_trace n (fst (updateEye e (env 0))) (\<lambda>k. env (Suc k))"
proof -
  have "eye_trace (Suc n) e env = map (\<lambda>k. state (eye_run k e env)) (0 # map Suc [0..<Suc n])"
    unfolding eye_trace_def by (simp only: upt_conv_Cons [of 0 "Suc (Suc n)"] map_Suc_upt zero_less_Suc if_True)
  then show ?thesis
    by (simp add: eye_trace_def comp_def eye_run_shift del: eye_run.simps(2) upt_Suc)
qed

lemma eye_trace_hd: "\<exists>ss. eye_trace n e env = state e # ss"
  by (cases n) (simp_all add: eye_trace_def upt_rec del: upt_Suc)

lemma blink_tail_shape:
  "blink_tail (EYE_BLINKING_CLOSE # ss) \<Longrightarrow>
     \<exists>rest. ss = EYE_BLINKING_OPEN # EYE_OPEN # rest \<and> blink_tail rest"
  by (cases "(EYE_BLINKING_CLOSE # ss)" rule: blink_tail.cases) auto

lemma rest_of_life_step:
  assumes "state e \<noteq> EYE_INACTIVE"
    and "rest_of_life (state (fst (updateEye e w))) (remdups_adj (state (fst (updateEye e w)) # ss))"
  shows "rest_of_life (state e) (remdups_adj (state e # state (fst (updateEye e w)) # ss))"
proof (cases "state (fst (updateEye e w)) = state e")
  case True
  with assms(2) show ?thesis by simp
next
  case False
  obtain ps where ps: "remdups_adj (state (fst (updateEye e w)) # ss) = state (fst (updateEye e w)) # ps"
    by (metis remdups_adj_Cons' )
  from False have eq: "remdups_adj (state e # state (fst (updateEye e w)) # ss)
      = state e # state (fst (updateEye e w)) # ps"
    using ps by simp
  show ?thesis
    using assms False unfolding eq ps
    by (cases "state e")
       (auto simp: updateEye_state lifecycle_path_def split: if_splits list.splits EyeState.splits dest: blink_tail_shape)
qed

lemma life_completes:
  "\<exists>n. rest_of_life (state e) (remdups_adj (eye_trace n e env)) \<and>
       state (eye_run n e env) = EYE_INACTIVE \<and>
       (\<forall>k<n. state (eye_run k e env) \<noteq> EYE_INACTIVE)"
proof -
  have wfm: "wf (inv_image (less_than <*lex*> less_than <*lex*> less_than) eye_measure)"
    by (intro wf_inv_image wf_lex_prod wf_less_than)
  show ?thesis
  proof (induction e arbitrary: env rule: wf_induct_rule [OF wfm])
    case (1 e)
    show ?case
    proof (cases "state e = EYE_INACTIVE")
      case True
      then have "rest_of_life (state e) (remdups_adj (eye_trace 0 e env)) \<and>
                 state (eye_run 0 e env) = EYE_INACTIVE"
        by (simp add: eye_trace_def)
      then show ?thesis by blast
    next
      case False
      let ?e = "fst (updateEye e (env 0))"
      let ?env = "\<lambda>k. env (Suc k)"
      have "(?e, e) \<in> inv_image (less_than <*lex*> less_than <*lex*> less_than) eye_measure"
        using updateEye_decreases [OF False, of "env 0"] by simp
      from "1.IH" [OF this, of ?env] obtain n where
        n: "rest_of_life (state ?e) (remdups_adj (eye_trace n ?e ?env))"
           "state (eye_run n ?e ?env) = EYE_INACTIVE"
           "\<forall>k<n. state (eye_run k ?e ?env) \<noteq> EYE_INACTIVE"
        by blast
      obtain ss where ss: "eye_trace n ?e ?env = state ?e # ss"
        using eye_trace_hd by blast
      have a: "rest_of_life (state e) (remdups_adj (eye_trace (Suc n) e env))"
        using rest_of_life_step [OF False, of "env 0" ss] n(1)
        unfolding eye_trace_shift ss by simp
      have b: "state (eye_run (Suc n) e env) = EYE_INACTIVE"
        using n(2) unfolding eye_run_shift .
      have c: "state (eye_run k e env) \<noteq> EYE_INACTIVE" if "k < Suc n" for k
      proof (cases k)
        case 0
        with False show ?thesis by simp
      next
        case (Suc j)
        with that n(3) show ?thesis unfolding Suc eye_run_shift by simp
      qed
      from a b c show ?thesis by blast
    qed
  qed
qed

text \<open>
  C2. An eye in state \<^verbatim>\<open>EYE_OPENING\<close>, as \<^verbatim>\<open>spawnEye\<close> leaves it, reaches \<^verbatim>\<open>EYE_INACTIVE\<close>
  after some number \<open>n\<close> of calls of \<^verbatim>\<open>updateEye\<close> and not before, and the states it shows
  up to there are, with repetitions merged, one path Opening, Open, any number of
  (BlinkClosing, BlinkOpening, Open), Closing, Inactive. So BlinkClosing is followed by
  BlinkOpening only and Opening is never entered again. This holds whatever the global
  state of each call.
\<close>

theorem eye_lifecycle_path:
  assumes "state e = EYE_OPENING"
  shows "\<exists>n. lifecycle_path (remdups_adj (eye_trace n e env)) \<and>
             state (eye_run n e env) = EYE_INACTIVE \<and>
             (\<forall>k<n. state (eye_run k e env) \<noteq> EYE_INACTIVE)"
  using life_completes [of e env] assms by simp

theorem eye_lifecycle_path_witness:
  "state (new_eye panel 100 2 30) = EYE_OPENING \<and>
   (\<exists>n. lifecycle_path (remdups_adj (eye_trace n (new_eye panel 100 2 30) (\<lambda>k. initial zeros k))) \<and>
        state (eye_run n (new_eye panel 100 2 30) (\<lambda>k. initial zeros k)) = EYE_INACTIVE \<and>
        (\<forall>k<n. state (eye_run k (new_eye panel 100 2 30) (\<lambda>k. initial zeros k)) \<noteq> EYE_INACTIVE))"
proof -
  have s: "state (new_eye panel 100 2 30) = EYE_OPENING" by (simp add: new_eye_def)
  from s eye_lifecycle_path [OF s, of "\<lambda>k. initial zeros k"] show ?thesis by blast
qed

section \<open>Ripples spawned by a blink\<close>

lemma random_range_bounds:
  assumes "lo < hi"
  shows "lo \<le> random_range lo hi r \<and> random_range lo hi r < hi"
proof -
  from assms have d: "0 < hi - lo" by simp
  have "0 \<le> r mod (hi - lo)" "r mod (hi - lo) < hi - lo"
    using pos_mod_sign [OF d] pos_mod_bound [OF d] by simp_all
  with assms show ?thesis by (simp add: random_range_def)
qed

lemma random_range_1_4: "random_range 1 4 r \<in> {1, 2, 3}"
  using random_range_bounds [of 1 4 r] by auto

lemma free_ripple_None:
  "free_ripple rs i n = None \<Longrightarrow> i \<le> j \<Longrightarrow> j < i + n \<Longrightarrow> active (rs ! j)"
proof (induction n arbitrary: i)
  case 0
  then show ?case by simp
next
  case (Suc n)
  show ?case
  proof (cases "j = i")
    case True
    with Suc.prems(1) show ?thesis by (simp split: if_splits)
  next
    case False
    with Suc.prems have "free_ripple rs (Suc i) n = None" "Suc i \<le> j" "j < Suc i + n"
      by (simp_all split: if_splits)
    then show ?thesis by (rule Suc.IH)
  qed
qed

lemma free_ripple_Some:
  "free_ripple rs i n = Some k \<Longrightarrow>
     i \<le> k \<and> k < i + n \<and> \<not> active (rs ! k) \<and> (\<forall>j. i \<le> j \<and> j < k \<longrightarrow> active (rs ! j))"
proof (induction n arbitrary: i)
  case 0
  then show ?case by simp
next
  case (Suc n)
  show ?case
  proof (cases "active (rs ! i)")
    case False
    with Suc.prems show ?thesis by auto
  next
    case True
    with Suc.prems have "free_ripple rs (Suc i) n = Some k" by simp
    from Suc.IH [OF this]
    have ih: "Suc i \<le> k" "k < Suc i + n" "\<not> active (rs ! k)"
      "\<forall>j. Suc i \<le> j \<and> j < k \<longrightarrow> active (rs ! j)"
      by simp_all
    have "active (rs ! j)" if "i \<le> j" "j < k" for j
    proof (cases "j = i")
      case True
      with \<open>active (rs ! i)\<close> show ?thesis by simp
    next
      case False
      with that ih(4) show ?thesis by simp
    qed
    with ih show ?thesis by simp
  qed
qed

lemma spawnRipple_length: "length (ripples (spawnRipple e w)) = length (ripples w)"
  by (simp add: spawnRipple_def random2_def split: option.splits)

lemma spawnRipple_eyes: "eyes (spawnRipple e w) = eyes w"
  by (simp add: spawnRipple_def random2_def split: option.splits)

lemma spawnRipple_attempt:
  assumes "length (ripples w) = MAX_RIPPLES"
  shows "spawn_attempt e (ripples w) (ripples (spawnRipple e w))"
proof (cases "free_ripple (ripples w) 0 MAX_RIPPLES")
  case None
  have "active r" if "r \<in> set (ripples w)" for r
  proof -
    from that obtain j where "j < length (ripples w)" "ripples w ! j = r"
      by (auto simp: in_set_conv_nth)
    with free_ripple_None [OF None, of j] assms show ?thesis by simp
  qed
  then have "list_all active (ripples w)" by (simp add: list_all_iff)
  with None show ?thesis by (simp add: spawn_attempt_def spawnRipple_def)
next
  case (Some k)
  from free_ripple_Some [OF Some]
  have k: "k < MAX_RIPPLES" "\<not> active (ripples w ! k)" "\<forall>j<k. active (ripples w ! j)"
    by simp_all
  from k assms have "\<not> list_all active (ripples w)"
    by (auto simp: list_all_length)
  moreover have "ripples (spawnRipple e w) =
      (ripples w)[k := new_ripple e (random_range 1 4 (raw w (used w)))]"
    using Some by (simp add: spawnRipple_def random2_def)
  moreover have "\<exists>i<length (ripples w). \<exists>sp\<in>{1, 2, 3}.
      \<not> active (ripples w ! i) \<and> (\<forall>j<i. active (ripples w ! j)) \<and>
      (ripples w)[k := new_ripple e (random_range 1 4 (raw w (used w)))] =
        (ripples w)[i := \<lparr>cx = eye_x e, cy = eye_y e, radius = halfHeight e,
                            speed = sp, active = True\<rparr>]"
    using k assms random_range_1_4 [of "raw w (used w)"]
    unfolding new_ripple_def
    by (intro exI [of _ k] conjI bexI [of _ "random_range 1 4 (raw w (used w))"]) simp_all
  ultimately show ?thesis
    by (simp add: spawn_attempt_def)
qed

lemma spawnRipples_loop_attempts:
  "length (ripples w) = MAX_RIPPLES \<Longrightarrow>
   \<exists>ps. length ps = Suc c \<and> ps ! 0 = ripples w \<and> ps ! c = ripples (spawnRipples_loop c e w) \<and>
        (\<forall>k<c. spawn_attempt e (ps ! k) (ps ! Suc k))"
proof (induction c arbitrary: w)
  case 0
  have "length [ripples w] = Suc 0 \<and> [ripples w] ! 0 = ripples w" by simp
  then show ?case by (intro exI [of _ "[ripples w]"]) simp
next
  case (Suc c)
  let ?w = "spawnRipple e w"
  have "length (ripples ?w) = MAX_RIPPLES"
    using Suc.prems by (simp add: spawnRipple_length)
  from Suc.IH [OF this] obtain ps where
    ps: "length ps = Suc c" "ps ! 0 = ripples ?w" "ps ! c = ripples (spawnRipples_loop c e ?w)"
        "\<forall>k<c. spawn_attempt e (ps ! k) (ps ! Suc k)"
    by blast
  have "\<forall>k<Suc c. spawn_attempt e ((ripples w # ps) ! k) ((ripples w # ps) ! Suc k)"
  proof (intro allI impI)
    fix k assume "k < Suc c"
    show "spawn_attempt e ((ripples w # ps) ! k) ((ripples w # ps) ! Suc k)"
    proof (cases k)
      case 0
      with ps(2) spawnRipple_attempt [OF Suc.prems, of e] show ?thesis by simp
    next
      case (Suc j)
      with \<open>k < Suc c\<close> ps(4) show ?thesis by simp
    qed
  qed
  with ps(1,3) show ?case
    by (intro exI [of _ "ripples w # ps"]) simp
qed

text \<open>
  C5. When \<^verbatim>\<open>updateEye\<close> takes an eye from \<^verbatim>\<open>EYE_OPEN\<close> to \<^verbatim>\<open>EYE_BLINKING_CLOSE\<close>, the ripple
  pool goes through \<open>n\<close> spawn attempts, where \<open>n\<close> is the value of one call
  \<^verbatim>\<open>random(1, 4)\<close> and so 1, 2 or 3 (that the generator is uniform is the Arduino core's
  contract, not modelled). Each attempt leaves a full pool unchanged and otherwise turns
  the first inactive slot into a ripple at the eye's \<open>(x, y)\<close> with radius \<open>halfHeight\<close>
  and a speed in \<open>{1, 2, 3}\<close>.
\<close>

theorem blink_spawns_ripples:
  assumes "state e = EYE_OPEN" "state (fst (updateEye e w)) = EYE_BLINKING_CLOSE"
    and "length (ripples w) = MAX_RIPPLES"
  shows "\<exists>n ps. n = nat (random_range 1 4 (raw w (used w))) \<and>
           1 \<le> n \<and> n \<le> 3 \<and> length ps = Suc n \<and>
           ps ! 0 = ripples w \<and> ps ! n = ripples (snd (updateEye e w)) \<and>
           (\<forall>k<n. spawn_attempt e (ps ! k) (ps ! Suc k))"
proof -
  let ?e = "e\<lparr>timer := timer e - 1, state := EYE_BLINKING_CLOSE, blinksLeft := blinksLeft e - 1\<rparr>"
  let ?c = "random_range 1 4 (raw w (used w))"
  let ?w = "w\<lparr>used := Suc (used w)\<rparr>"
  from assms(1,2) have t: "timer e - 1 \<le> 0" "0 < blinksLeft e"
    by (auto simp: updateEye_state split: if_splits)
  have r: "ripples (snd (updateEye e w)) = ripples (spawnRipples_loop (nat ?c) ?e ?w)"
    using assms(1) t
    by (simp add: updateEye_def Let_def split_def updateIris_world spawnRipples_def random2_def)
  have c: "1 \<le> nat ?c \<and> nat ?c \<le> 3"
    using random_range_1_4 [of "raw w (used w)"] by auto
  have "length (ripples ?w) = MAX_RIPPLES" using assms(3) by simp
  from spawnRipples_loop_attempts [OF this, of "nat ?c" ?e] obtain ps where
    ps: "length ps = Suc (nat ?c)" "ps ! 0 = ripples w"
        "ps ! nat ?c = ripples (spawnRipples_loop (nat ?c) ?e ?w)"
        "\<forall>k<nat ?c. spawn_attempt ?e (ps ! k) (ps ! Suc k)"
    by auto
  have "spawn_attempt ?e = spawn_attempt e"
    by (intro ext) (simp add: spawn_attempt_def)
  with ps r c show ?thesis
    by (intro exI [of _ "nat ?c"] exI [of _ ps]) simp
qed

theorem blink_spawns_ripples_witness:
  "state ((new_eye panel 100 2 30)\<lparr>state := EYE_OPEN, openAmount := 30, timer := 1\<rparr>) = EYE_OPEN \<and>
   state (fst (updateEye ((new_eye panel 100 2 30)\<lparr>state := EYE_OPEN, openAmount := 30, timer := 1\<rparr>)
                 (initial zeros 0))) = EYE_BLINKING_CLOSE \<and>
   (\<exists>n ps. n = nat (random_range 1 4 (raw (initial zeros 0) (used (initial zeros 0)))) \<and>
      1 \<le> n \<and> n \<le> 3 \<and> length ps = Suc n \<and>
      ps ! 0 = ripples (initial zeros 0) \<and>
      ps ! n = ripples (snd (updateEye
                 ((new_eye panel 100 2 30)\<lparr>state := EYE_OPEN, openAmount := 30, timer := 1\<rparr>)
                 (initial zeros 0))) \<and>
      (\<forall>k<n. spawn_attempt
                 ((new_eye panel 100 2 30)\<lparr>state := EYE_OPEN, openAmount := 30, timer := 1\<rparr>)
                 (ps ! k) (ps ! Suc k)))"
proof -
  let ?e = "(new_eye panel 100 2 30)\<lparr>state := EYE_OPEN, openAmount := 30, timer := 1\<rparr>"
  have a: "state ?e = EYE_OPEN" by simp
  have b: "state (fst (updateEye ?e (initial zeros 0))) = EYE_BLINKING_CLOSE"
    by (simp add: updateEye_state new_eye_def)
  have c: "length (ripples (initial zeros 0)) = MAX_RIPPLES" by (simp add: initial_def)
  from a b blink_spawns_ripples [OF a b c] show ?thesis by blast
qed

section \<open>What a frame preserves\<close>

lemma spawnRipples_loop_eyes: "eyes (spawnRipples_loop c e w) = eyes w"
  by (induction c arbitrary: w) (simp_all add: spawnRipple_eyes)

lemma spawnRipples_loop_length:
  "length (ripples (spawnRipples_loop c e w)) = length (ripples w)"
  by (induction c arbitrary: w) (simp_all add: spawnRipple_length)

lemma spawnRipples_eyes: "eyes (spawnRipples e w) = eyes w"
  by (simp add: spawnRipples_def random2_def spawnRipples_loop_eyes)

lemma spawnRipples_length: "length (ripples (spawnRipples e w)) = length (ripples w)"
  by (simp add: spawnRipples_def random2_def spawnRipples_loop_length)

lemma updateEye_eyes: "eyes (snd (updateEye e w)) = eyes w"
  by (simp add: updateEye_def updateIris_world random2_world spawnRipples_eyes Let_def
      split_def split: EyeState.splits)

lemma updateEye_ripples_length: "length (ripples (snd (updateEye e w))) = length (ripples w)"
  by (simp add: updateEye_def updateIris_world random2_world spawnRipples_length Let_def
      split_def split: EyeState.splits)

lemma sample_y_world:
  "eyes (snd (sample_y n m i w)) = eyes w \<and> ripples (snd (sample_y n m i w)) = ripples w"
  by (induction n arbitrary: w) (simp_all add: random2_def Let_def)

lemma sample_y_spaced:
  "sample_y n m i w = (Some newY, w') \<Longrightarrow> spacing_ok i newY (eyes w)"
proof (induction n arbitrary: w)
  case 0
  then show ?case by simp
next
  case (Suc n)
  let ?r = "random2 (EYE_HALF_HEIGHT + 2) (height m - EYE_HALF_HEIGHT - 2) w"
  show ?case
  proof (cases "spacing_ok i (fst ?r) (eyes w)")
    case True
    with Suc.prems show ?thesis by (auto simp: split_def Let_def random2_world)
  next
    case False
    with Suc.prems have "sample_y n m i (snd ?r) = (Some newY, w')"
      by (simp add: split_def Let_def random2_world)
    from Suc.IH [OF this] show ?thesis by (simp add: random2_world)
  qed
qed

lemma free_eye_Some:
  "free_eye es i n = Some k \<Longrightarrow> i \<le> k \<and> k < i + n \<and> state (es ! k) = EYE_INACTIVE"
proof (induction n arbitrary: i)
  case 0
  then show ?case by simp
next
  case (Suc n)
  show ?case
  proof (cases "state (es ! i) = EYE_INACTIVE")
    case True
    with Suc.prems show ?thesis by auto
  next
    case False
    with Suc.prems have "free_eye es (Suc i) n = Some k" by simp
    from Suc.IH [OF this] show ?thesis by simp
  qed
qed

text \<open>What \<^verbatim>\<open>spawnEye\<close> does to the pool: nothing, or one inactive slot gets a new eye.\<close>

lemma spawnEye_cases:
  "eyes (spawnEye m w) = eyes w \<or>
   (\<exists>i newY b l. i < MAX_EYES \<and> state (eyes w ! i) = EYE_INACTIVE \<and>
      spacing_ok i newY (eyes w) \<and> 1 \<le> b \<and> b \<le> 4 \<and> 20 \<le> l \<and> l \<le> 59 \<and>
      eyes (spawnEye m w) = (eyes w)[i := new_eye m newY b l])"
proof (cases "free_eye (eyes w) 0 MAX_EYES")
  case None
  then show ?thesis by (simp add: spawnEye_def)
next
  case (Some i)
  from free_eye_Some [OF Some] have i: "i < MAX_EYES" "state (eyes w ! i) = EYE_INACTIVE"
    by simp_all
  obtain r w1 where s: "sample_y 20 m i w = (r, w1)" by (cases "sample_y 20 m i w")
  have w1: "eyes w1 = eyes w" using sample_y_world [of 20 m i w] s by simp
  show ?thesis
  proof (cases r)
    case None
    with Some s w1 show ?thesis by (simp add: spawnEye_def)
  next
    case (Some newY)
    let ?b = "random_range 1 5 (raw w1 (used w1))"
    let ?l = "random_range 20 60 (raw w1 (Suc (used w1)))"
    have "eyes (spawnEye m w) = (eyes w)[i := new_eye m newY ?b ?l]"
      using \<open>free_eye (eyes w) 0 MAX_EYES = Some i\<close> s Some w1
      by (simp add: spawnEye_def random2_def)
    moreover have "spacing_ok i newY (eyes w)"
      using sample_y_spaced s Some by blast
    moreover have "1 \<le> ?b \<and> ?b \<le> 4" "20 \<le> ?l \<and> ?l \<le> 59"
      using random_range_bounds [of 1 5 "raw w1 (used w1)"]
            random_range_bounds [of 20 60 "raw w1 (Suc (used w1))"] by simp_all
    ultimately show ?thesis using i by blast
  qed
qed

lemma spawnEye_ripples: "ripples (spawnEye m w) = ripples w"
proof (cases "free_eye (eyes w) 0 MAX_EYES")
  case None
  then show ?thesis by (simp add: spawnEye_def)
next
  case (Some i)
  obtain r w1 where s: "sample_y 20 m i w = (r, w1)" by (cases "sample_y 20 m i w")
  have "ripples w1 = ripples w" using sample_y_world [of 20 m i w] s by simp
  with Some s show ?thesis
    by (cases r) (simp_all add: spawnEye_def random2_def)
qed

lemma updateRipples_eyes: "eyes (updateRipples m w) = eyes w"
proof -
  have "eyes (fold (\<lambda>i w. w\<lparr>ripples := (ripples w)[i := f (ripples w ! i)]\<rparr>) is w) = eyes w"
    for f :: "Ripple \<Rightarrow> Ripple" and "is"
    by (induction "is" arbitrary: w) simp_all
  then show ?thesis by (simp add: updateRipples_def Let_def)
qed

lemma fold_update_map:
  "n \<le> length (ripples w) \<Longrightarrow>
   ripples (fold (\<lambda>i w. w\<lparr>ripples := (ripples w)[i := f (ripples w ! i)]\<rparr>) [0..<n] w)
     = map f (take n (ripples w)) @ drop n (ripples w)"
proof (induction n)
  case 0
  then show ?case by simp
next
  case (Suc n)
  then have n: "n < length (ripples w)" by simp
  from Suc have "ripples (fold (\<lambda>i w. w\<lparr>ripples := (ripples w)[i := f (ripples w ! i)]\<rparr>) [0..<n] w)
     = map f (take n (ripples w)) @ drop n (ripples w)" by simp
  then show ?case using n
    by (simp add: nth_append list_update_append take_Suc_conv_app_nth upd_conv_take_nth_drop
        Cons_nth_drop_Suc [symmetric])
qed

lemma updateRipples_map:
  "length (ripples w) = MAX_RIPPLES \<Longrightarrow>
   ripples (updateRipples m w) = map (updateRipple (max (width m) (height m))) (ripples w)"
  using fold_update_map [of MAX_RIPPLES w "updateRipple (max (width m) (height m))"]
  by (simp add: updateRipples_def Let_def)

text \<open>
  A property of the global state that every step of a frame preserves holds after the
  eye section of every frame and in every state in which a frame starts.
\<close>

lemma update_slot_eq:
  "update_slot i (w, a) =
     (if state (eyes w ! i) \<noteq> EYE_INACTIVE then (slot_updated i w, a + 1) else (w, a))"
  by (simp add: update_slot_def slot_updated_def split_def Let_def updateEye_eyes)

lemma fold_update_slot_preserves:
  assumes step: "\<And>w i. Q w \<Longrightarrow> i < MAX_EYES \<Longrightarrow> state (eyes w ! i) \<noteq> EYE_INACTIVE \<Longrightarrow>
                   Q (slot_updated i w)"
    and "Q w"
  shows "n \<le> MAX_EYES \<Longrightarrow> Q (fst (fold update_slot [0..<n] (w, a)))"
proof (induction n)
  case 0
  with assms(2) show ?case by simp
next
  case (Suc n)
  obtain w' a' where f: "fold update_slot [0..<n] (w, a) = (w', a')"
    by (cases "fold update_slot [0..<n] (w, a)")
  with Suc have "Q w'" by simp
  with step [of w' n] Suc.prems show ?case
    by (simp add: f update_slot_eq)
qed

lemma update_eyes_preserves:
  assumes "\<And>w i. Q w \<Longrightarrow> i < MAX_EYES \<Longrightarrow> state (eyes w ! i) \<noteq> EYE_INACTIVE \<Longrightarrow>
                   Q (slot_updated i w)"
    and "Q w"
  shows "Q (fst (update_eyes w))"
  unfolding update_eyes_def
  using fold_update_slot_preserves [of Q w MAX_EYES 0] assms by simp

lemma ensure_two_preserves_aux:
  "(\<And>w. Q w \<Longrightarrow> Q (spawnEye m w)) \<Longrightarrow> Q w \<Longrightarrow> Q (fst (ensure_two m w a))"
proof (induction m w a rule: ensure_two.induct)
  case (1 m w a)
  show ?case
  proof (cases "a < 2")
    case True
    from "1.prems"(2) have "Q (spawnEye m w)" by (rule "1.prems"(1))
    from "1.IH" [OF True "1.prems"(1) this] True show ?thesis
      by (simp add: ensure_two.simps [of m w a])
  next
    case False
    with "1.prems" show ?thesis by (simp add: ensure_two.simps [of m w a])
  qed
qed

lemma ensure_two_preserves:
  assumes "\<And>w. Q w \<Longrightarrow> Q (spawnEye m w)" and "Q w"
  shows "Q (fst (ensure_two m w a))"
  using assms by (rule ensure_two_preserves_aux)

lemma maybe_spawn_preserves:
  assumes "\<And>w. Q w \<Longrightarrow> Q (spawnEye m w)"
    and "\<And>w k. Q w \<Longrightarrow> Q (w\<lparr>used := k\<rparr>)"
    and "Q w"
  shows "Q (maybe_spawn m w a)"
  using assms by (simp add: maybe_spawn_def random1_def Let_def)

lemma eyes_phase_preserves:
  assumes "\<And>w i. Q w \<Longrightarrow> i < MAX_EYES \<Longrightarrow> state (eyes w ! i) \<noteq> EYE_INACTIVE \<Longrightarrow>
                   Q (slot_updated i w)"
    and "\<And>w. Q w \<Longrightarrow> Q (spawnEye m w)"
    and "\<And>w k. Q w \<Longrightarrow> Q (w\<lparr>used := k\<rparr>)"
    and "Q w"
  shows "Q (eyes_phase m w)"
proof -
  have 1: "Q (fst (update_eyes w))"
    using assms(1,4) by (rule update_eyes_preserves)
  have 2: "Q (fst (ensure_two m (fst (update_eyes w)) (snd (update_eyes w))))"
    using assms(2) 1 by (rule ensure_two_preserves)
  show ?thesis
    unfolding eyes_phase_def Let_def split_def
    using assms(2,3) 2 by (rule maybe_spawn_preserves)
qed

lemma reachable_preserves:
  assumes "\<And>w i. Q w \<Longrightarrow> i < MAX_EYES \<Longrightarrow> state (eyes w ! i) \<noteq> EYE_INACTIVE \<Longrightarrow>
                   Q (slot_updated i w)"
    and "\<And>w. Q w \<Longrightarrow> Q (spawnEye m w)"
    and "\<And>w k. Q w \<Longrightarrow> Q (w\<lparr>used := k\<rparr>)"
    and "\<And>w rw. Q w \<Longrightarrow> Q (w\<lparr>raw := rw\<rparr>)"
    and "\<And>w. Q w \<Longrightarrow> Q (updateRipples m w)"
    and "\<And>rw k. Q (initial rw k)"
  shows "reachable m w \<Longrightarrow> Q w"
proof (induction rule: reachable.induct)
  case (start rw k)
  show ?case by (rule assms(6))
next
  case (frame w k rw)
  have "Q (eyes_phase m w)"
    using assms(1,2,3) frame.IH by (rule eyes_phase_preserves)
  then have "Q (drawDigital m w)"
    unfolding drawDigital_def by (rule assms(5))
  then have "Q ((drawDigital m w)\<lparr>raw := rw\<rparr>)" by (rule assms(4))
  then have "Q ((drawDigital m w)\<lparr>raw := rw\<rparr>\<lparr>used := k\<rparr>)" by (rule assms(3))
  then show ?case by simp
qed

text \<open>The pool invariants are such a property.\<close>

lemma list_all_update: "list_all P xs \<Longrightarrow> P v \<Longrightarrow> list_all P (xs[i := v])"
  using set_update_subset_insert [of xs i v] by (auto simp: list_all_iff)

lemma spawnRipple_ok:
  "list_all ripple_ok (ripples w) \<Longrightarrow> list_all ripple_ok (ripples (spawnRipple e w))"
proof (cases "free_ripple (ripples w) 0 MAX_RIPPLES")
  case None
  assume "list_all ripple_ok (ripples w)"
  with None show ?thesis by (simp add: spawnRipple_def)
next
  case (Some i)
  assume a: "list_all ripple_ok (ripples w)"
  have "ripple_ok (new_ripple e (random_range 1 4 (raw w (used w))))"
    using random_range_bounds [of 1 4 "raw w (used w)"]
    by (simp add: ripple_ok_def new_ripple_def)
  with a Some show ?thesis
    by (simp add: spawnRipple_def random2_def list_all_update)
qed

lemma spawnRipples_loop_ok:
  "list_all ripple_ok (ripples w) \<Longrightarrow> list_all ripple_ok (ripples (spawnRipples_loop c e w))"
  by (induction c arbitrary: w) (simp_all add: spawnRipple_ok)

lemma updateEye_ripples_ok:
  assumes "list_all ripple_ok (ripples w)"
  shows "list_all ripple_ok (ripples (snd (updateEye e w)))"
proof -
  have "list_all ripple_ok (ripples (spawnRipples e' w))" for e'
    using assms by (simp add: spawnRipples_def random2_def spawnRipples_loop_ok)
  with assms show ?thesis
    by (simp add: updateEye_def updateIris_world random2_world Let_def split_def
        split: EyeState.splits)
qed

lemma spaced_update_same_y:
  assumes "spaced es" "eye_y e' = eye_y (es ! i)"
    and "state e' \<noteq> EYE_INACTIVE \<Longrightarrow> state (es ! i) \<noteq> EYE_INACTIVE"
  shows "spaced (es[i := e'])"
  unfolding spaced_def
proof (intro allI impI)
  fix a b
  assume ab: "a < length (es[i := e'])" "b < length (es[i := e'])"
    and h: "a \<noteq> b \<and> state (es[i := e'] ! a) \<noteq> EYE_INACTIVE \<and> state (es[i := e'] ! b) \<noteq> EYE_INACTIVE"
  have y: "eye_y (es[i := e'] ! c) = eye_y (es ! c)" if "c < length es" for c
    using that assms(2) by (cases "c = i") simp_all
  have s: "state (es ! c) \<noteq> EYE_INACTIVE" if "c < length es" "state (es[i := e'] ! c) \<noteq> EYE_INACTIVE" for c
    using that assms(3) by (cases "c = i") simp_all
  from ab h assms(1) show "EYE_MIN_SPACING \<le> \<bar>eye_y (es[i := e'] ! a) - eye_y (es[i := e'] ! b)\<bar>"
    unfolding spaced_def using y s by simp
qed

lemma spacing_ok_iff:
  "spacing_ok i newY es =
     (\<forall>j<MAX_EYES. j \<noteq> i \<and> state (es ! j) \<noteq> EYE_INACTIVE \<longrightarrow>
        EYE_MIN_SPACING \<le> \<bar>newY - eye_y (es ! j)\<bar>)"
  by (auto simp: spacing_ok_def list_all_iff not_less)

lemma spaced_update_new:
  assumes "spaced es" "length es = MAX_EYES" "spacing_ok i newY es" "eye_y e' = newY"
  shows "spaced (es[i := e'])"
  unfolding spaced_def
proof (intro allI impI)
  fix a b
  assume ab: "a < length (es[i := e'])" "b < length (es[i := e'])"
    and h: "a \<noteq> b \<and> state (es[i := e'] ! a) \<noteq> EYE_INACTIVE \<and> state (es[i := e'] ! b) \<noteq> EYE_INACTIVE"
  from ab assms(2) have ab': "a < MAX_EYES" "b < MAX_EYES" "a < length es" "b < length es"
    by simp_all
  consider "a = i" | "b = i" | "a \<noteq> i" "b \<noteq> i" by blast
  then show "EYE_MIN_SPACING \<le> \<bar>eye_y (es[i := e'] ! a) - eye_y (es[i := e'] ! b)\<bar>"
  proof cases
    case 1
    with h have "b \<noteq> i" "state (es ! b) \<noteq> EYE_INACTIVE" by auto
    with ab' assms(3) have "EYE_MIN_SPACING \<le> \<bar>newY - eye_y (es ! b)\<bar>"
      by (simp add: spacing_ok_iff)
    with 1 \<open>b \<noteq> i\<close> ab' assms(4) show ?thesis by simp
  next
    case 2
    with h have "a \<noteq> i" "state (es ! a) \<noteq> EYE_INACTIVE" by auto
    with ab' assms(3) have "EYE_MIN_SPACING \<le> \<bar>newY - eye_y (es ! a)\<bar>"
      by (simp add: spacing_ok_iff)
    with 2 \<open>a \<noteq> i\<close> ab' assms(4) show ?thesis by (simp add: abs_minus_commute)
  next
    case 3
    with h ab' assms(1) show ?thesis unfolding spaced_def by simp
  qed
qed

lemma slot_updated_ok:
  assumes "world_ok w"
  shows "world_ok (slot_updated i w)"
proof -
  let ?e = "eyes w ! i"
  let ?e' = "fst (updateEye ?e w)"
  have "state ?e' \<noteq> EYE_INACTIVE \<Longrightarrow> state ?e \<noteq> EYE_INACTIVE"
    by (auto simp: updateEye_state)
  then have "spaced ((eyes w)[i := ?e'])"
    using assms by (intro spaced_update_same_y) (simp_all add: world_ok_def updateEye_fixed)
  moreover have "list_all (\<lambda>e. 0 \<le> blinksLeft e) ((eyes w)[i := ?e'])"
  proof (cases "i < length (eyes w)")
    case True
    with assms have "0 \<le> blinksLeft ?e" by (simp add: world_ok_def list_all_length)
    then have "0 \<le> blinksLeft ?e'" by (simp add: updateEye_blinksLeft)
    with assms show ?thesis by (simp add: world_ok_def list_all_update)
  next
    case False
    then have "(eyes w)[i := ?e'] = eyes w" by (simp add: list_update_beyond)
    with assms show ?thesis by (simp add: world_ok_def)
  qed
  ultimately show ?thesis
    using assms
    by (simp add: world_ok_def slot_updated_def updateEye_ripples_length updateEye_ripples_ok)
qed

lemma spawnEye_ok:
  assumes "world_ok w"
  shows "world_ok (spawnEye m w)"
proof -
  from spawnEye_cases [of m w] show ?thesis
  proof
    assume "eyes (spawnEye m w) = eyes w"
    with assms show ?thesis by (simp add: world_ok_def spawnEye_ripples)
  next
    assume "\<exists>i newY b l. i < MAX_EYES \<and> state (eyes w ! i) = EYE_INACTIVE \<and>
      spacing_ok i newY (eyes w) \<and> 1 \<le> b \<and> b \<le> 4 \<and> 20 \<le> l \<and> l \<le> 59 \<and>
      eyes (spawnEye m w) = (eyes w)[i := new_eye m newY b l]"
    then obtain i newY b l where
      s: "spacing_ok i newY (eyes w)" "1 \<le> b"
         "eyes (spawnEye m w) = (eyes w)[i := new_eye m newY b l]"
      by blast
    have "spaced ((eyes w)[i := new_eye m newY b l])"
      using assms s(1) by (intro spaced_update_new [of _ _ newY]) (simp_all add: world_ok_def new_eye_def)
    moreover have "list_all (\<lambda>e. 0 \<le> blinksLeft e) ((eyes w)[i := new_eye m newY b l])"
      using assms s(2) by (intro list_all_update) (simp_all add: world_ok_def new_eye_def)
    ultimately show ?thesis
      using assms s(3) by (simp add: world_ok_def spawnEye_ripples)
  qed
qed

lemma updateRipple_ok: "ripple_ok r \<Longrightarrow> ripple_ok (updateRipple d r)"
  by (simp add: ripple_ok_def updateRipple_def Let_def)

lemma updateRipples_ok:
  assumes "world_ok w"
  shows "world_ok (updateRipples m w)"
proof -
  from assms have "length (ripples w) = MAX_RIPPLES" by (simp add: world_ok_def)
  from updateRipples_map [OF this, of m] assms show ?thesis
    by (simp add: world_ok_def updateRipples_eyes list_all_iff updateRipple_ok)
qed

lemma initial_ok: "world_ok (initial rw k)"
  by (simp add: world_ok_def initial_def spaced_def eye0_def ripple0_def ripple_ok_def
      list_all_iff)

lemma eyes_phase_ok: "world_ok w \<Longrightarrow> world_ok (eyes_phase m w)"
  by (rule eyes_phase_preserves [of world_ok])
     (simp_all add: slot_updated_ok spawnEye_ok, simp add: world_ok_def)

lemma reachable_ok: "reachable m w \<Longrightarrow> world_ok w"
proof (rule reachable_preserves [of world_ok m w])
  show "world_ok (w\<lparr>used := k\<rparr>)" if "world_ok w" for w :: world and k
    using that by (simp add: world_ok_def)
  show "world_ok (w\<lparr>raw := rw\<rparr>)" if "world_ok w" for w :: world and rw
    using that by (simp add: world_ok_def)
qed (simp_all add: slot_updated_ok spawnEye_ok updateRipples_ok initial_ok)

lemma frames_reachable: "reachable installed (frames n)"
  by (induction n) (simp_all add: reachable.intros)

section \<open>Spacing of the active eyes\<close>

text \<open>
  C7. The minimum spacing is 55, and in every state in which a frame starts, and after the
  eye section of that frame (where eyes are spawned), any two different slots that are
  both active have \<open>y\<close> coordinates at least \<^verbatim>\<open>EYE_MIN_SPACING\<close> apart; \<^verbatim>\<open>updateEye\<close> never
  changes an eye's \<open>y\<close>.
\<close>

theorem active_eyes_spaced:
  assumes "reachable m w"
  shows "EYE_MIN_SPACING = 55 \<and> length (eyes w) = MAX_EYES \<and> spaced (eyes w) \<and>
         spaced (eyes (eyes_phase m w)) \<and>
         (\<forall>e w'. eye_y (fst (updateEye e w')) = eye_y e)"
  using reachable_ok [OF assms] eyes_phase_ok [of w m]
  by (simp add: world_ok_def EYE_MIN_SPACING_def updateEye_fixed)

theorem active_eyes_spaced_witness:
  "state (eyes (frames 1) ! 0) \<noteq> EYE_INACTIVE \<and> state (eyes (frames 1) ! 1) \<noteq> EYE_INACTIVE \<and>
   EYE_MIN_SPACING \<le> \<bar>eye_y (eyes (frames 1) ! 0) - eye_y (eyes (frames 1) ! 1)\<bar>"
proof -
  have a: "state (eyes (frames 1) ! 0) \<noteq> EYE_INACTIVE \<and> state (eyes (frames 1) ! 1) \<noteq> EYE_INACTIVE"
    by code_simp
  from active_eyes_spaced [OF frames_reachable [of 1]]
  have "spaced (eyes (frames 1))" "length (eyes (frames 1)) = 8"
    by (simp_all add: MAX_EYES_def)
  then have "(0::nat) \<noteq> 1 \<and> state (eyes (frames 1) ! 0) \<noteq> EYE_INACTIVE \<and>
      state (eyes (frames 1) ! 1) \<noteq> EYE_INACTIVE \<longrightarrow>
      EYE_MIN_SPACING \<le> \<bar>eye_y (eyes (frames 1) ! 0) - eye_y (eyes (frames 1) ! 1)\<bar>"
    unfolding spaced_def by simp
  with a show ?thesis by simp
qed

section \<open>The opening of an active eye stays within its bounds\<close>

lemma updateEye_bounded:
  "0 \<le> openAmount e \<and> openAmount e \<le> maxOpen e \<Longrightarrow>
   0 \<le> openAmount (fst (updateEye e w)) \<and> openAmount (fst (updateEye e w)) \<le> maxOpen e"
  by (cases "state e") (simp_all add: updateEye_openAmount)

lemma slot_updated_bounded:
  assumes "list_all open_bounded (eyes w)" "state (eyes w ! i) \<noteq> EYE_INACTIVE"
  shows "list_all open_bounded (eyes (slot_updated i w))"
proof (cases "i < length (eyes w)")
  case True
  with assms have "0 \<le> openAmount (eyes w ! i) \<and> openAmount (eyes w ! i) \<le> maxOpen (eyes w ! i)"
    by (simp add: list_all_length open_bounded_def)
  from updateEye_bounded [OF this, of w]
  have "open_bounded (fst (updateEye (eyes w ! i) w))"
    by (simp add: open_bounded_def updateEye_fixed)
  with assms(1) show ?thesis by (simp add: slot_updated_def list_all_update)
next
  case False
  with assms(1) show ?thesis by (simp add: slot_updated_def list_update_beyond)
qed

lemma spawnEye_bounded:
  assumes "0 \<le> width m sdiv 2 - 2" "list_all open_bounded (eyes w)"
  shows "list_all open_bounded (eyes (spawnEye m w))"
proof -
  have "open_bounded (new_eye m y b l)" for y b l
    using assms(1) by (simp add: open_bounded_def new_eye_def)
  with spawnEye_cases [of m w] assms(2) show ?thesis
    by (auto simp: list_all_update)
qed

text \<open>
  C3. On a display wide enough for \<open>maxOpen \<ge> 0\<close> at spawn (\<open>width / 2 - 2 \<ge> 0\<close>), every
  active eye has \<open>0 \<le> openAmount \<le> maxOpen\<close> in every state in which a frame starts and
  after the eye section of that frame; \<^verbatim>\<open>spawnEye\<close> keeps the bound of the pool, the eye it
  initialises included; and a call of \<^verbatim>\<open>updateEye\<close> keeps the bound of its eye.
\<close>

theorem open_amount_bounded:
  assumes "0 \<le> width m sdiv 2 - 2"
  shows "(reachable m w \<longrightarrow>
            list_all open_bounded (eyes w) \<and> list_all open_bounded (eyes (eyes_phase m w))) \<and>
         (list_all open_bounded (eyes w) \<longrightarrow> list_all open_bounded (eyes (spawnEye m w))) \<and>
         (0 \<le> openAmount e \<and> openAmount e \<le> maxOpen e \<longrightarrow>
            0 \<le> openAmount (fst (updateEye e w)) \<and>
            openAmount (fst (updateEye e w)) \<le> maxOpen (fst (updateEye e w)))"
proof -
  let ?Q = "\<lambda>w. list_all open_bounded (eyes w)"
  have step: "?Q (slot_updated i w)" if "?Q w" "state (eyes w ! i) \<noteq> EYE_INACTIVE" for w i
    using that by (rule slot_updated_bounded)
  have spawn: "?Q (spawnEye m w)" if "?Q w" for w
    using assms that by (rule spawnEye_bounded)
  have rnd: "?Q (w\<lparr>used := k\<rparr>)" if "?Q w" for w :: world and k
    using that by simp
  have phase: "?Q (eyes_phase m w)" if q: "?Q w" for w
  proof (rule eyes_phase_preserves [of ?Q])
    show "?Q (slot_updated i w)" if "?Q w" "i < MAX_EYES" "state (eyes w ! i) \<noteq> EYE_INACTIVE"
      for w i using that(1,3) by (rule step)
  qed (simp_all add: spawn q)
  have init: "?Q (initial rw k)" for rw k
    by (simp add: initial_def eye0_def open_bounded_def list_all_iff)
  have "?Q w" if r: "reachable m w"
  proof (rule reachable_preserves [of ?Q m w])
    show "?Q (slot_updated i w)" if "?Q w" "i < MAX_EYES" "state (eyes w ! i) \<noteq> EYE_INACTIVE"
      for w i using that(1,3) by (rule step)
  qed (simp_all add: spawn r init updateRipples_eyes)
  with phase spawn updateEye_bounded [of e w] show ?thesis
    by (simp add: updateEye_fixed)
qed

theorem open_amount_bounded_witness:
  "0 \<le> width installed sdiv 2 - 2 \<and>
   list_all open_bounded (eyes (frames 1)) \<and>
   list_all open_bounded (eyes (eyes_phase installed (frames 1))) \<and>
   0 \<le> openAmount (fst (updateEye (new_eye installed 100 2 30) (frames 1))) \<and>
   openAmount (fst (updateEye (new_eye installed 100 2 30) (frames 1)))
     \<le> maxOpen (fst (updateEye (new_eye installed 100 2 30) (frames 1)))"
proof -
  have a: "0 \<le> width installed sdiv 2 - 2" by (simp add: installed_def)
  have b: "0 \<le> openAmount (new_eye installed 100 2 30) \<and>
           openAmount (new_eye installed 100 2 30) \<le> maxOpen (new_eye installed 100 2 30)"
    by (simp add: installed_def new_eye_def)
  from a b frames_reachable [of 1]
    open_amount_bounded [OF a, of "frames 1" "new_eye installed 100 2 30"]
  show ?thesis by blast
qed

section \<open>Blinks left and the final closing\<close>

text \<open>
  C6. For any eye with \<open>blinksLeft \<ge> 0\<close>, which every eye of a state in which a frame starts
  has, a call of \<^verbatim>\<open>updateEye\<close> in any global state never increases \<open>blinksLeft\<close> (it
  lowers it by one when an open eye blinks and leaves it alone otherwise) and keeps it
  non-negative. The call takes the eye from \<^verbatim>\<open>EYE_OPEN\<close> to \<^verbatim>\<open>EYE_CLOSING\<close> exactly when
  the eye is open, the decremented timer is \<open>\<le> 0\<close> and \<open>blinksLeft = 0\<close>; on that tick all
  that runs besides is \<^verbatim>\<open>updateIris\<close>, so \<^verbatim>\<open>spawnRipples\<close> is not called and the ripple pool
  is unchanged. With \<open>blinksLeft > 0\<close> the eye goes to \<^verbatim>\<open>EYE_BLINKING_CLOSE\<close> instead, and
  while the decremented timer is positive it stays open.
\<close>

theorem blinks_run_out_then_closing:
  assumes "0 \<le> blinksLeft e"
  shows "0 \<le> blinksLeft (fst (updateEye e w)) \<and>
         blinksLeft (fst (updateEye e w)) \<le> blinksLeft e \<and>
         blinksLeft (fst (updateEye e w)) =
           (if state e = EYE_OPEN \<and> timer e - 1 \<le> 0 \<and> 0 < blinksLeft e
            then blinksLeft e - 1 else blinksLeft e) \<and>
         ((state e = EYE_OPEN \<and> state (fst (updateEye e w)) = EYE_CLOSING) \<longleftrightarrow>
          (state e = EYE_OPEN \<and> timer e - 1 \<le> 0 \<and> blinksLeft e = 0)) \<and>
         (state e = EYE_OPEN \<and> timer e - 1 \<le> 0 \<and> blinksLeft e = 0 \<longrightarrow>
            updateEye e w = updateIris (e\<lparr>timer := timer e - 1, state := EYE_CLOSING\<rparr>) w \<and>
            ripples (snd (updateEye e w)) = ripples w) \<and>
         (state e = EYE_OPEN \<and> timer e - 1 \<le> 0 \<and> 0 < blinksLeft e \<longrightarrow>
            state (fst (updateEye e w)) = EYE_BLINKING_CLOSE) \<and>
         (state e = EYE_OPEN \<and> 0 < timer e - 1 \<longrightarrow>
            state (fst (updateEye e w)) = EYE_OPEN \<and> ripples (snd (updateEye e w)) = ripples w) \<and>
         (reachable m w0 \<longrightarrow> list_all (\<lambda>e. 0 \<le> blinksLeft e) (eyes w0))"
proof -
  have c: "updateEye e w = updateIris (e\<lparr>timer := timer e - 1, state := EYE_CLOSING\<rparr>) w"
    if "state e = EYE_OPEN" "timer e - 1 \<le> 0" "blinksLeft e = 0"
    using that by (simp add: updateEye_def Let_def)
  have r: "ripples (snd (updateEye e w)) = ripples w"
    if "state e = EYE_OPEN" "timer e - 1 \<le> 0" "blinksLeft e = 0"
    using that by (simp add: c updateIris_world)
  have o: "ripples (snd (updateEye e w)) = ripples w"
    if "state e = EYE_OPEN" "0 < timer e - 1"
    using that by (simp add: updateEye_def Let_def split_def updateIris_world)
  have i: "list_all (\<lambda>e. 0 \<le> blinksLeft e) (eyes w0)" if "reachable m w0"
    using reachable_ok [OF that] by (simp add: world_ok_def)
  from assms c r o i show ?thesis
    by (auto simp: updateEye_state updateEye_blinksLeft split: if_splits)
qed

theorem blinks_run_out_then_closing_witness:
  "state (eyes (frames 143) ! 0) = EYE_OPEN \<and> timer (eyes (frames 143) ! 0) = 1 \<and>
   blinksLeft (eyes (frames 143) ! 0) = 0 \<and>
   state (fst (updateEye (eyes (frames 143) ! 0) (frames 143))) = EYE_CLOSING \<and>
   ripples (snd (updateEye (eyes (frames 143) ! 0) (frames 143))) = ripples (frames 143) \<and>
   state (eyes (frames 68) ! 0) = EYE_OPEN \<and> timer (eyes (frames 68) ! 0) = 1 \<and>
   blinksLeft (eyes (frames 68) ! 0) = 1 \<and>
   state (fst (updateEye (eyes (frames 68) ! 0) (frames 68))) = EYE_BLINKING_CLOSE \<and>
   blinksLeft (fst (updateEye (eyes (frames 68) ! 0) (frames 68))) = 0"
proof -
  have a: "state (eyes (frames 143) ! 0) = EYE_OPEN \<and> timer (eyes (frames 143) ! 0) = 1 \<and>
           blinksLeft (eyes (frames 143) ! 0) = 0"
    by code_simp
  have b: "state (eyes (frames 68) ! 0) = EYE_OPEN \<and> timer (eyes (frames 68) ! 0) = 1 \<and>
           blinksLeft (eyes (frames 68) ! 0) = 1"
    by code_simp
  let ?e = "eyes (frames 143) ! 0" and ?f = "eyes (frames 68) ! 0"
  from a have a0: "0 \<le> blinksLeft ?e"
    and a1: "state ?e = EYE_OPEN \<and> timer ?e - 1 \<le> 0 \<and> blinksLeft ?e = 0"
    by simp_all
  from b have b0: "0 \<le> blinksLeft ?f"
    and b1: "state ?f = EYE_OPEN \<and> timer ?f - 1 \<le> 0 \<and> 0 < blinksLeft ?f"
    by simp_all
  from a1 blinks_run_out_then_closing [OF a0, of "frames 143"]
  have 1: "state (fst (updateEye ?e (frames 143))) = EYE_CLOSING \<and>
           ripples (snd (updateEye ?e (frames 143))) = ripples (frames 143)"
    by blast
  from b1 blinks_run_out_then_closing [OF b0, of "frames 68"]
  have "state (fst (updateEye ?f (frames 68))) = EYE_BLINKING_CLOSE \<and>
        blinksLeft (fst (updateEye ?f (frames 68))) = blinksLeft ?f - 1"
    by presburger
  with b have 2: "state (fst (updateEye ?f (frames 68))) = EYE_BLINKING_CLOSE \<and>
           blinksLeft (fst (updateEye ?f (frames 68))) = 0"
    by simp
  from a b 1 2 show ?thesis by simp
qed

section \<open>Growth and retirement of a ripple\<close>

lemma updateRipple_active:
  "active r \<Longrightarrow>
     radius (updateRipple d r) = radius r + speed r \<and> speed (updateRipple d r) = speed r \<and>
     cx (updateRipple d r) = cx r \<and> cy (updateRipple d r) = cy r \<and>
     active (updateRipple d r) = (\<not> radius r + speed r > d)"
  by (simp add: updateRipple_def Let_def)

text \<open>
  C4. In every frame, a ripple that is active when \<^verbatim>\<open>updateRipples\<close> runs has a speed of at
  least 1, and the call adds the speed to its radius, which so grows strictly, and keeps
  the speed; the ripple is inactive afterwards exactly when the new radius exceeds
  \<open>max(width, height)\<close>. So it is retired by the first update that takes the radius past
  the larger dimension and by none before.
\<close>

theorem ripple_grows_until_past_display:
  assumes "reachable m w" "i < MAX_RIPPLES" "active (ripples (eyes_phase m w) ! i)"
  shows "1 \<le> speed (ripples (eyes_phase m w) ! i) \<and>
         radius (ripples (drawDigital m w) ! i) =
           radius (ripples (eyes_phase m w) ! i) + speed (ripples (eyes_phase m w) ! i) \<and>
         radius (ripples (eyes_phase m w) ! i) < radius (ripples (drawDigital m w) ! i) \<and>
         speed (ripples (drawDigital m w) ! i) = speed (ripples (eyes_phase m w) ! i) \<and>
         (active (ripples (drawDigital m w) ! i) \<longleftrightarrow>
            \<not> radius (ripples (drawDigital m w) ! i) > max (width m) (height m))"
proof -
  let ?w = "eyes_phase m w"
  have ok: "world_ok ?w" using reachable_ok [OF assms(1)] by (rule eyes_phase_ok)
  then have len: "length (ripples ?w) = MAX_RIPPLES" by (simp add: world_ok_def)
  from ok assms(2) len have "ripple_ok (ripples ?w ! i)"
    by (simp add: world_ok_def list_all_length)
  with assms(3) have sp: "1 \<le> speed (ripples ?w ! i)" by (simp add: ripple_ok_def)
  have "ripples (drawDigital m w) ! i = updateRipple (max (width m) (height m)) (ripples ?w ! i)"
    using updateRipples_map [OF len, of m] assms(2) len by (simp add: drawDigital_def)
  with updateRipple_active [OF assms(3), of "max (width m) (height m)"] sp show ?thesis
    by simp
qed

theorem ripple_grows_until_past_display_witness:
  "active (ripples (eyes_phase installed (frames 68)) ! 0) \<and>
   1 \<le> speed (ripples (eyes_phase installed (frames 68)) ! 0) \<and>
   radius (ripples (eyes_phase installed (frames 68)) ! 0)
     < radius (ripples (drawDigital installed (frames 68)) ! 0)"
proof -
  have a: "active (ripples (eyes_phase installed (frames 68)) ! 0)" by code_simp
  have i: "0 < MAX_RIPPLES" by (simp add: MAX_RIPPLES_def)
  from a ripple_grows_until_past_display [OF frames_reachable i a] show ?thesis by blast
qed

section \<open>A spawn that finds no place\<close>

lemma sample_y_all_fail:
  "(\<forall>k<n. \<not> spacing_ok i (random_range (EYE_HALF_HEIGHT + 2) (height m - EYE_HALF_HEIGHT - 2)
                             (raw w (used w + k))) (eyes w)) \<Longrightarrow>
   fst (sample_y n m i w) = None"
proof (induction n arbitrary: w)
  case 0
  then show ?case by simp
next
  case (Suc n)
  let ?lo = "EYE_HALF_HEIGHT + 2"
  let ?hi = "height m - EYE_HALF_HEIGHT - 2"
  from Suc.prems have 0: "\<not> spacing_ok i (random_range ?lo ?hi (raw w (used w))) (eyes w)"
    by (metis add.right_neutral zero_less_Suc)
  show ?case
  proof (cases "?lo \<ge> ?hi")
    case True
    have "\<forall>k<n. \<not> spacing_ok i (random_range ?lo ?hi (raw w (used w + k))) (eyes w)"
      using Suc.prems by simp
    from Suc.IH [OF this] 0 True show ?thesis by (simp add: random2_def)
  next
    case False
    let ?w = "w\<lparr>used := Suc (used w)\<rparr>"
    have "\<forall>k<n. \<not> spacing_ok i (random_range ?lo ?hi (raw ?w (used ?w + k))) (eyes ?w)"
      using Suc.prems by (auto dest: spec [of _ "Suc k" for k])
    from Suc.IH [OF this] 0 False show ?thesis by (simp add: random2_def)
  qed
qed

text \<open>
  C8. If \<^verbatim>\<open>spawnEye\<close> is called with exactly one active eye and each of the 20 positions it
  draws (the k-th from the k-th raw number from the current one on) fails the spacing test
  for the slot it would fill, it returns with the eye pool unchanged, so still with one
  active eye; the ripple pool is unchanged too.
\<close>

theorem spawn_abandoned_after_20_failures:
  assumes "num_active (eyes w) = 1"
    and "free_eye (eyes w) 0 MAX_EYES = Some i"
    and "\<forall>k<20. \<not> spacing_ok i (random_range (EYE_HALF_HEIGHT + 2)
                     (height m - EYE_HALF_HEIGHT - 2) (raw w (used w + k))) (eyes w)"
  shows "eyes (spawnEye m w) = eyes w \<and> num_active (eyes (spawnEye m w)) = 1 \<and>
         ripples (spawnEye m w) = ripples w"
proof -
  obtain r w1 where s: "sample_y 20 m i w = (r, w1)" by (cases "sample_y 20 m i w")
  with sample_y_all_fail [OF assms(3)] have "r = None" by simp
  moreover have "eyes w1 = eyes w" using sample_y_world [of 20 m i w] s by simp
  ultimately have "eyes (spawnEye m w) = eyes w"
    using assms(2) s by (simp add: spawnEye_def)
  with assms(1) show ?thesis by (simp add: spawnEye_ripples)
qed

theorem spawn_abandoned_after_20_failures_witness:
  "num_active (eyes ((spawnEye installed (initial zeros 0))\<lparr>raw := zeros, used := 0\<rparr>)) = 1 \<and>
   eyes (spawnEye installed ((spawnEye installed (initial zeros 0))\<lparr>raw := zeros, used := 0\<rparr>))
     = eyes ((spawnEye installed (initial zeros 0))\<lparr>raw := zeros, used := 0\<rparr>) \<and>
   num_active (eyes (spawnEye installed
      ((spawnEye installed (initial zeros 0))\<lparr>raw := zeros, used := 0\<rparr>))) = 1"
proof -
  let ?w = "(spawnEye installed (initial zeros 0))\<lparr>raw := zeros, used := 0\<rparr>"
  have a: "num_active (eyes ?w) = 1" by code_simp
  have b: "free_eye (eyes ?w) 0 MAX_EYES = Some 1" by code_simp
  have c: "\<not> spacing_ok 1 (random_range (EYE_HALF_HEIGHT + 2)
                (height installed - EYE_HALF_HEIGHT - 2) 0) (eyes ?w)"
    by code_simp
  have d: "\<forall>k<20. \<not> spacing_ok 1 (random_range (EYE_HALF_HEIGHT + 2)
                (height installed - EYE_HALF_HEIGHT - 2) (raw ?w (used ?w + k))) (eyes ?w)"
    using c by (simp add: zeros_def)
  from a spawn_abandoned_after_20_failures [OF a b d] show ?thesis by blast
qed

section \<open>The population after replenishment\<close>

text \<open>The first loop counts the eyes that were active when the frame started.\<close>

lemma num_active_append: "num_active (xs @ ys) = num_active xs + num_active ys"
  by (simp add: num_active_def)

lemma num_active_update: "num_active (xs[i := v]) \<le> Suc (num_active xs)"
proof (cases "i < length xs")
  case True
  then have "xs[i := v] = take i xs @ v # drop (Suc i) xs"
    by (simp add: upd_conv_take_nth_drop)
  moreover have "xs = take i xs @ (xs ! i) # drop (Suc i) xs"
    using True by (simp add: id_take_nth_drop [symmetric])
  then have "num_active xs = num_active (take i xs) + num_active [xs ! i] + num_active (drop (Suc i) xs)"
    by (metis append_Cons append_Nil num_active_append add.assoc)
  ultimately show ?thesis
    by (simp add: num_active_append num_active_def)
next
  case False
  then show ?thesis by (simp add: list_update_beyond)
qed

lemma drop_eq_nth:
  assumes "drop n xs = drop n ys" "n < length xs" "length ys = length xs"
  shows "xs ! n = ys ! n"
proof -
  have "xs ! n = hd (drop n xs)" using assms(2) by (simp add: hd_drop_conv_nth)
  also have "\<dots> = hd (drop n ys)" using assms(1) by simp
  also have "\<dots> = ys ! n" using assms(2,3) by (simp add: hd_drop_conv_nth)
  finally show ?thesis .
qed

lemma drop_eq_Suc: "drop n xs = drop n ys \<Longrightarrow> drop (Suc n) xs = drop (Suc n) ys"
proof -
  assume "drop n xs = drop n ys"
  then have "tl (drop n xs) = tl (drop n ys)" by simp
  then show ?thesis by (simp only: drop_Suc tl_drop)
qed

lemma fold_update_slot_count:
  "n \<le> length (eyes w) \<Longrightarrow>
   (case fold update_slot [0..<n] (w, 0) of (w', a) \<Rightarrow>
      length (eyes w') = length (eyes w) \<and> drop n (eyes w') = drop n (eyes w) \<and>
      a = int (num_active (take n (eyes w))) \<and>
      num_active (take n (eyes w')) \<le> num_active (take n (eyes w)))"
proof (induction n)
  case 0
  then show ?case by (simp add: num_active_def)
next
  case (Suc n)
  obtain w' a where f: "fold update_slot [0..<n] (w, 0) = (w', a)"
    by (cases "fold update_slot [0..<n] (w, 0)")
  from Suc f have ih: "length (eyes w') = length (eyes w)" "drop n (eyes w') = drop n (eyes w)"
      "a = int (num_active (take n (eyes w)))"
      "num_active (take n (eyes w')) \<le> num_active (take n (eyes w))"
    by simp_all
  from Suc.prems have n: "n < length (eyes w)" by simp
  have same: "eyes w' ! n = eyes w ! n"
    using ih(1,2) n by (intro drop_eq_nth) simp_all
  have d: "drop (Suc n) (eyes w') = drop (Suc n) (eyes w)"
    using ih(2) by (rule drop_eq_Suc)
  have t: "take (Suc n) (eyes w) = take n (eyes w) @ [eyes w ! n]"
    using n by (simp add: take_Suc_conv_app_nth)
  show ?case
  proof (cases "state (eyes w ! n) = EYE_INACTIVE")
    case True
    have f': "fold update_slot [0..<Suc n] (w, 0) = (w', a)"
      using True same by (simp add: f update_slot_eq)
    have "take (Suc n) (eyes w') = take n (eyes w') @ [eyes w ! n]"
      using n ih(1) same by (simp add: take_Suc_conv_app_nth)
    then have 1: "num_active (take (Suc n) (eyes w')) = num_active (take n (eyes w'))"
      using True by (simp add: num_active_append) (simp add: num_active_def)
    have 2: "num_active (take (Suc n) (eyes w)) = num_active (take n (eyes w))"
      using True t by (simp add: num_active_append) (simp add: num_active_def)
    have 3: "a = int (num_active (take (Suc n) (eyes w)))"
      using ih(3) 2 by linarith
    have 4: "num_active (take (Suc n) (eyes w')) \<le> num_active (take (Suc n) (eyes w))"
      using ih(4) 1 2 by linarith
    from ih(1) d 3 4 show ?thesis unfolding f' by (simp only: prod.case)
  next
    case False
    let ?e = "fst (updateEye (eyes w' ! n) w')"
    have f': "fold update_slot [0..<Suc n] (w, 0) = (slot_updated n w', a + 1)"
      using False same by (simp add: f update_slot_eq)
    have e: "eyes (slot_updated n w') = (eyes w')[n := ?e]"
      by (simp add: slot_updated_def)
    have "take (Suc n) ((eyes w')[n := ?e]) = take n (eyes w') @ [?e]"
      using n ih(1) by (simp add: take_Suc_conv_app_nth)
    then have 1: "num_active (take (Suc n) ((eyes w')[n := ?e])) \<le> Suc (num_active (take n (eyes w')))"
      by (simp add: num_active_append) (simp add: num_active_def)
    have 2: "num_active (take (Suc n) (eyes w)) = Suc (num_active (take n (eyes w)))"
      using False t by (simp add: num_active_append) (simp add: num_active_def)
    have 3: "a + 1 = int (num_active (take (Suc n) (eyes w)))"
      using ih(3) 2 by linarith
    have 4: "num_active (take (Suc n) ((eyes w')[n := ?e])) \<le> num_active (take (Suc n) (eyes w))"
      using ih(4) 1 2 by linarith
    have 5: "drop (Suc n) ((eyes w')[n := ?e]) = drop (Suc n) (eyes w)"
      using d by simp
    have 6: "length ((eyes w')[n := ?e]) = length (eyes w)"
      using ih(1) by simp
    from 6 5 3 4 show ?thesis unfolding f' by (simp only: prod.case e)
  qed
qed

lemma update_eyes_count:
  assumes "length (eyes w) = MAX_EYES"
  shows "snd (update_eyes w) = int (num_active (eyes w)) \<and>
         num_active (eyes (fst (update_eyes w))) \<le> num_active (eyes w)"
proof -
  obtain w' a where f: "fold update_slot [0..<MAX_EYES] (w, 0) = (w', a)"
    by (cases "fold update_slot [0..<MAX_EYES] (w, 0)")
  have "MAX_EYES \<le> length (eyes w)" using assms by simp
  from fold_update_slot_count [OF this]
  have c: "length (eyes w') = length (eyes w) \<and>
      a = int (num_active (take MAX_EYES (eyes w))) \<and>
      num_active (take MAX_EYES (eyes w')) \<le> num_active (take MAX_EYES (eyes w))"
    unfolding f by simp
  have "take MAX_EYES (eyes w') = eyes w'" "take MAX_EYES (eyes w) = eyes w"
    using c assms by simp_all
  with c show ?thesis by (simp add: update_eyes_def f)
qed

lemma spawnEye_count: "num_active (eyes (spawnEye m w)) \<le> Suc (num_active (eyes w))"
  using spawnEye_cases [of m w] num_active_update by auto

lemma ensure_two_count:
  "snd (ensure_two m w a) = max a 2 \<and>
   int (num_active (eyes (fst (ensure_two m w a)))) \<le> int (num_active (eyes w)) + (max a 2 - a)"
proof (induction m w a rule: ensure_two.induct)
  case (1 m w a)
  show ?case
  proof (cases "a < 2")
    case True
    from "1.IH" [OF True] spawnEye_count [of m w] True show ?thesis
      by (simp add: ensure_two.simps [of m w a])
  next
    case False
    then show ?thesis by (simp add: ensure_two.simps [of m w a])
  qed
qed

lemma maybe_spawn_count:
  "num_active (eyes (maybe_spawn m w a)) \<le> num_active (eyes w) + (if a < 5 then 1 else 0)"
  using spawnEye_count [of m "snd (random1 90 w)"]
  by (simp add: maybe_spawn_def Let_def split_def random1_def)

lemma eyes_phase_count:
  assumes "length (eyes w) = MAX_EYES" "num_active (eyes w) \<le> 5"
  shows "num_active (eyes (eyes_phase m w)) \<le> 5"
proof -
  obtain w1 a1 where u: "update_eyes w = (w1, a1)" by (cases "update_eyes w")
  obtain w2 a2 where e: "ensure_two m w1 a1 = (w2, a2)" by (cases "ensure_two m w1 a1")
  from update_eyes_count [OF assms(1)] u
  have 1: "a1 = int (num_active (eyes w))" "num_active (eyes w1) \<le> num_active (eyes w)"
    by simp_all
  from ensure_two_count [of m w1 a1] e
  have 2: "a2 = max a1 2" "int (num_active (eyes w2)) \<le> int (num_active (eyes w1)) + (max a1 2 - a1)"
    by simp_all
  have 3: "num_active (eyes (maybe_spawn m w2 a2)) \<le> num_active (eyes w2) + (if a2 < 5 then 1 else 0)"
    by (rule maybe_spawn_count)
  have 4: "eyes_phase m w = maybe_spawn m w2 a2"
    by (simp add: eyes_phase_def u e)
  show ?thesis
  proof (cases "a2 < 5")
    case True
    with 3 have "num_active (eyes (maybe_spawn m w2 a2)) \<le> num_active (eyes w2) + 1" by simp
    with 1 2 True assms(2) show ?thesis unfolding 4 by linarith
  next
    case False
    with 3 have "num_active (eyes (maybe_spawn m w2 a2)) \<le> num_active (eyes w2)" by simp
    with 1 2 False assms(2) show ?thesis unfolding 4 by linarith
  qed
qed

lemma active_at_most_five:
  "reachable m w \<Longrightarrow> num_active (eyes w) \<le> 5 \<and> num_active (eyes (eyes_phase m w)) \<le> 5"
proof (induction rule: reachable.induct)
  case (start rw k)
  have "length (eyes (initial rw k)) = MAX_EYES" "num_active (eyes (initial rw k)) = 0"
    by (simp_all add: initial_def num_active_def eye0_def)
  with eyes_phase_count [of "initial rw k" m] show ?case by simp
next
  case (frame w k rw)
  let ?w = "(drawDigital m w)\<lparr>raw := rw, used := k\<rparr>"
  have "reachable m ?w" using frame.hyps by (rule reachable.frame)
  from reachable_ok [OF this] have "length (eyes ?w) = MAX_EYES" by (simp add: world_ok_def)
  moreover have "num_active (eyes ?w) \<le> 5"
    using frame.IH by (simp add: drawDigital_def updateRipples_eyes)
  ultimately show ?case using eyes_phase_count [of ?w m] by simp
qed

text \<open>Calls of \<^verbatim>\<open>spawnEye\<close> never lower the number of active eyes.\<close>

lemma num_active_update_inactive:
  assumes "state (xs ! i) = EYE_INACTIVE"
  shows "num_active xs \<le> num_active (xs[i := v])"
proof (cases "i < length xs")
  case True
  have 1: "xs[i := v] = take i xs @ v # drop (Suc i) xs"
    using True by (simp add: upd_conv_take_nth_drop)
  have 2: "xs = take i xs @ (xs ! i) # drop (Suc i) xs"
    using True by (simp add: id_take_nth_drop [symmetric])
  have "num_active xs = num_active (take i xs) + num_active ((xs ! i) # drop (Suc i) xs)"
    using 2 num_active_append by metis
  also have "\<dots> = num_active (take i xs) + num_active (drop (Suc i) xs)"
    using assms by (simp add: num_active_def)
  also have "\<dots> \<le> num_active (take i xs) + num_active (v # drop (Suc i) xs)"
    by (simp add: num_active_def)
  also have "\<dots> = num_active (xs[i := v])"
    unfolding 1 by (simp add: num_active_append)
  finally show ?thesis .
next
  case False
  then show ?thesis by (simp add: list_update_beyond)
qed

lemma spawnEye_count_mono: "num_active (eyes w) \<le> num_active (eyes (spawnEye m w))"
  using spawnEye_cases [of m w] num_active_update_inactive by auto

lemma maybe_spawn_count_mono: "num_active (eyes w) \<le> num_active (eyes (maybe_spawn m w a))"
  using spawnEye_count_mono [of "snd (random1 90 w)" m]
  by (simp add: maybe_spawn_def Let_def split_def random1_def)

lemma ensure_two_placed:
  assumes "a < 2 \<longrightarrow> placed m w" "a < 1 \<longrightarrow> placed m (spawnEye m w)" "0 \<le> a"
    and "a = int (num_active (eyes w))"
  shows "2 \<le> num_active (eyes (fst (ensure_two m w a)))"
proof -
  consider "a = 0" | "a = 1" | "2 \<le> a" using assms(3) by linarith
  then show ?thesis
  proof cases
    case 1
    then have "ensure_two m w a = (spawnEye m (spawnEye m w), 2)"
      by (simp add: ensure_two.simps [of m w 0] ensure_two.simps [of m "spawnEye m w" 1]
          ensure_two.simps [of m "spawnEye m (spawnEye m w)" 2])
    with 1 assms show ?thesis by (simp add: placed_def)
  next
    case 2
    then have "ensure_two m w a = (spawnEye m w, 2)"
      by (simp add: ensure_two.simps [of m w 1] ensure_two.simps [of m "spawnEye m w" 2])
    with 2 assms show ?thesis by (simp add: placed_def)
  next
    case 3
    then have "ensure_two m w a = (w, a)" by (simp add: ensure_two.simps [of m w a])
    with 3 assms(4) show ?thesis by simp
  qed
qed

text \<open>
  C1, in the form in which it holds. In every frame the number of active eyes after the
  replenishment step is at most 5. It is at least 2 in a frame whose first loop turned no eye inactive, provided
  each call of \<^verbatim>\<open>spawnEye\<close> made by the loop \<^verbatim>\<open>while (activeEyes < 2)\<close> placed an eye (the
  first call when the counter is below 2, the second when it is below 1); a call that
  gives up after 20 failed placements adds none, and the counter advances all the same.
\<close>

theorem population_after_replenishment:
  assumes "reachable m w"
  shows "num_active (eyes (eyes_phase m w)) \<le> 5 \<and>
         (num_active (eyes (fst (update_eyes w))) = num_active (eyes w) \<and>
          (snd (update_eyes w) < 2 \<longrightarrow> placed m (fst (update_eyes w))) \<and>
          (snd (update_eyes w) < 1 \<longrightarrow> placed m (spawnEye m (fst (update_eyes w)))) \<longrightarrow>
          2 \<le> num_active (eyes (eyes_phase m w)))"
proof (intro conjI impI)
  show "num_active (eyes (eyes_phase m w)) \<le> 5"
    using active_at_most_five [OF assms] by simp
next
  let ?w1 = "fst (update_eyes w)" and ?a1 = "snd (update_eyes w)"
  assume h: "num_active (eyes ?w1) = num_active (eyes w) \<and>
          (?a1 < 2 \<longrightarrow> placed m ?w1) \<and> (?a1 < 1 \<longrightarrow> placed m (spawnEye m ?w1))"
  have len: "length (eyes w) = MAX_EYES"
    using reachable_ok [OF assms] by (simp add: world_ok_def)
  from update_eyes_count [OF len] h have a: "?a1 = int (num_active (eyes ?w1))" by simp
  have "2 \<le> num_active (eyes (fst (ensure_two m ?w1 ?a1)))"
    using h a by (intro ensure_two_placed) simp_all
  also have "\<dots> \<le> num_active (eyes (maybe_spawn m (fst (ensure_two m ?w1 ?a1))
                      (snd (ensure_two m ?w1 ?a1))))"
    by (rule maybe_spawn_count_mono)
  also have "\<dots> = num_active (eyes (eyes_phase m w))"
    by (simp add: eyes_phase_def split_def Let_def)
  finally show "2 \<le> num_active (eyes (eyes_phase m w))" .
qed

theorem population_after_replenishment_witness:
  "num_active (eyes (eyes_phase installed (initial steps 0))) \<le> 5 \<and>
   2 \<le> num_active (eyes (eyes_phase installed (initial steps 0)))"
proof -
  have h: "num_active (eyes (fst (update_eyes (initial steps 0)))) = num_active (eyes (initial steps 0)) \<and>
     placed installed (fst (update_eyes (initial steps 0))) \<and>
     placed installed (spawnEye installed (fst (update_eyes (initial steps 0))))"
    by code_simp
  from h population_after_replenishment [OF reachable.start, of installed steps 0]
  show ?thesis by blast
qed

text \<open>
  C1 as stated fails for the lower bound: on the short display the second eye never finds
  a place, and the first frame ends its replenishment step with one active eye.
\<close>

theorem replenishment_below_two_counterexample:
  "reachable short_panel (initial steps 0) \<and>
   num_active (eyes (eyes_phase short_panel (initial steps 0))) = 1"
proof -
  have "num_active (eyes (eyes_phase short_panel (initial steps 0))) = 1" by code_simp
  then show ?thesis by (simp add: reachable.start)
qed

text \<open>
  The lower bound also fails in a frame in which an eye turns inactive. After 150 frames of
  the example run on the installed display both eyes are in the last tick of
  \<^verbatim>\<open>EYE_CLOSING\<close>. In the next frame the first loop counts them (\<^verbatim>\<open>activeEyes = 2\<close>) while
  \<^verbatim>\<open>updateEye\<close> makes them inactive, so the loop \<^verbatim>\<open>while (activeEyes < 2)\<close> spawns nothing:
  after the replenishment step, and at the end of the frame, no eye is active.
\<close>

lemma retiring_eyes_are_counted:
  "reachable installed (frames 150) \<and> num_active (eyes (frames 150)) = 2 \<and>
   num_active (eyes (eyes_phase installed (frames 150))) = 0 \<and>
   num_active (eyes (drawDigital installed (frames 150))) = 0"
proof -
  have "num_active (eyes (frames 150)) = 2 \<and>
        num_active (eyes (eyes_phase installed (frames 150))) = 0"
    by code_simp
  then show ?thesis
    by (simp add: frames_reachable drawDigital_def updateRipples_eyes)
qed

end
